theory Spec2Isabelle
  imports Complex_Main
begin

section \<open>Numbers of the source language\<close>

text \<open>
  The timeline code of \<^verbatim>\<open>GanttView\<close> computes with JavaScript numbers. Every
  finite number is a rational, and every arithmetic operation returns the exact
  result passed through one rounding step. The embedding keeps that rounding step as
  a parameter \<open>R\<close> of every function that divides, multiplies, adds or subtracts:
  \<^item> \<open>binary64\<close> rounds to the nearest IEEE-754 double, ties to even, which is what
    the engine does;
  \<^item> \<open>exact\<close> rounds nothing: arithmetic over the rationals, in which the
    specification writes its formulas.
  Infinities, NaN and the sign of zero are outside the embedding, so a division by
  zero is outside it too: the theorems keep the divisors (\<open>timeView\<close>, \<open>numChunks\<close>)
  positive. Sums, differences and products of integers below \<open>2 ^ 53\<close> are exact in
  doubles and are written as integer arithmetic.
\<close>

type_synonym rounding = "rat \<Rightarrow> rat"

definition exact :: rounding where
  "exact q = q"

function bitlen :: "int \<Rightarrow> int" where
  \<comment> \<open>the number of binary digits of a positive integer\<close>
  "bitlen n = (if n \<le> 0 then 0 else 1 + bitlen (n div 2))"
  by pat_completeness auto
termination
  by (relation "measure nat") auto

declare bitlen.simps [simp del]

definition binary_exponent :: "rat \<Rightarrow> int" where
  \<comment> \<open>for \<open>0 < a\<close>: the \<open>e\<close> with \<open>2 ^ e \<le> a < 2 ^ (e + 1)\<close>\<close>
  "binary_exponent a =
     (let (p, d) = quotient_of a;
          e0 = bitlen p - bitlen d
      in if 2 powi e0 \<le> a then e0 else e0 - 1)"

definition round_half_even :: "rat \<Rightarrow> int" where
  "round_half_even m =
     (let f = \<lfloor>m\<rfloor>; r = m - of_int f
      in if r < 1 / 2 then f
         else if 1 / 2 < r then f + 1
         else if even f then f else f + 1)"

definition binary64 :: rounding where
  \<comment> \<open>53 significant bits; below \<open>2 ^ -1022\<close> the spacing stays \<open>2 ^ -1074\<close>\<close>
  "binary64 q =
     (if q = 0 then 0
      else let a = \<bar>q\<bar>;
               e = binary_exponent a;
               u = 2 powi (max (e - 52) (- 1074))
           in sgn q * of_int (round_half_even (a / u)) * u)"

definition fadd :: "rounding \<Rightarrow> rat \<Rightarrow> rat \<Rightarrow> rat" where
  "fadd R a b = R (a + b)"

definition fsub :: "rounding \<Rightarrow> rat \<Rightarrow> rat \<Rightarrow> rat" where
  "fsub R a b = R (a - b)"

definition fmul :: "rounding \<Rightarrow> rat \<Rightarrow> rat \<Rightarrow> rat" where
  "fmul R a b = R (a * b)"

definition fdiv :: "rounding \<Rightarrow> rat \<Rightarrow> rat \<Rightarrow> rat" where
  "fdiv R a b = R (a / b)"

definition Math_floor :: "rat \<Rightarrow> int" where
  "Math_floor q = \<lfloor>q\<rfloor>"

definition Math_ceil :: "rat \<Rightarrow> int" where
  "Math_ceil q = \<lceil>q\<rceil>"

definition Math_max :: "rat \<Rightarrow> rat \<Rightarrow> rat" where
  "Math_max a b = max a b"

definition Math_round :: "rat \<Rightarrow> int" where
  \<comment> \<open>to the nearest integer, a tie toward plus infinity\<close>
  "Math_round q = \<lfloor>q + 1 / 2\<rfloor>"

definition js_rem :: "rat \<Rightarrow> rat \<Rightarrow> rat" where
  \<comment> \<open>the operator \<^verbatim>\<open>%\<close>: the quotient is truncated toward zero, so the result has
      the sign of the dividend; the result is always representable and never rounded\<close>
  "js_rem x y = x - y * of_int (if x / y < 0 then \<lceil>x / y\<rceil> else \<lfloor>x / y\<rfloor>)"

definition js_rem_int :: "int \<Rightarrow> int \<Rightarrow> int" where
  \<comment> \<open>\<^verbatim>\<open>%\<close> on integer-valued numbers\<close>
  "js_rem_int a b = sgn a * (\<bar>a\<bar> mod \<bar>b\<bar>)"

section \<open>Instants, days and time zones\<close>

text \<open>
  A \<^verbatim>\<open>Date\<close> is its time value, the milliseconds since 1970-01-01T00:00Z, an
  integer. The UTC fields \<^verbatim>\<open>getUTCFullYear\<close>, \<^verbatim>\<open>getUTCMonth\<close> and
  \<^verbatim>\<open>getUTCDate\<close> of an instant name its UTC day, and \<^verbatim>\<open>Date.UTC\<close> maps such a
  triple and a time of day back to an instant; the embedding carries the day number
  (days since the epoch) where the source carries the triple. The flight times are
  the instants that \<^verbatim>\<open>new Date(departure_time)\<close> parses from the stored timestamps.
\<close>

definition msPerDay :: int where
  "msPerDay = 86400000"

definition utcDay :: "int \<Rightarrow> int" where
  "utcDay t = t div msPerDay"

definition Date_UTC :: "int \<Rightarrow> int \<Rightarrow> int \<Rightarrow> int \<Rightarrow> int \<Rightarrow> int" where
  "Date_UTC day hours minutes seconds ms =
     day * msPerDay + hours * 3600000 + minutes * 60000 + seconds * 1000 + ms"

text \<open>
  The local fields of a \<^verbatim>\<open>Date\<close> depend on the time zone of the browser. As in
  the language standard, a zone is its offset function \<^verbatim>\<open>LocalTZA(t, isUTC)\<close>:
  for a UTC instant (\<open>isUTC\<close> true) the offset in force then, for a local wall-clock
  time (\<open>isUTC\<close> false) the offset with which that wall-clock time is read, the one
  before the change where a clock change skips or repeats it. \<open>LocalTime\<close> and \<open>UTC\<close>
  are the standard's two conversions.
\<close>

type_synonym zone = "int \<Rightarrow> bool \<Rightarrow> int"

definition LocalTime :: "zone \<Rightarrow> int \<Rightarrow> int" where
  "LocalTime z t = t + z t True"

definition UTC :: "zone \<Rightarrow> int \<Rightarrow> int" where
  "UTC z t = t - z t False"

definition utc_zone :: zone where
  "utc_zone t isUTC = 0"

definition new_york_2025 :: zone where
  \<comment> \<open>America/New_York around 2025: UTC-5, and UTC-4 from 2025-03-09T07:00Z to
      2025-11-02T06:00Z\<close>
  "new_york_2025 t isUTC =
     (if isUTC then
        (if t < Date_UTC 20156 7 0 0 0 then - 18000000
         else if t < Date_UTC 20394 6 0 0 0 then - 14400000
         else - 18000000)
      else
        (if t < Date_UTC 20156 3 0 0 0 then - 18000000
         else if t < Date_UTC 20394 2 0 0 0 then - 14400000
         else - 18000000))"

section \<open>The date library\<close>

text \<open>
  \<^verbatim>\<open>differenceInDays\<close> and \<^verbatim>\<open>addDays\<close> are imported from date-fns, whose code is
  not part of the repository; they are modelled after the library's own code. Both
  work on the local fields of their arguments: \<^verbatim>\<open>addDays\<close> and the library's
  internal \<^verbatim>\<open>setDate\<close> step move the local wall-clock time by whole days,
  \<^verbatim>\<open>startOfDay\<close> sets the local time of day to midnight, \<^verbatim>\<open>compareLocalAsc\<close>
  compares local fields, and \<^verbatim>\<open>differenceInCalendarDays\<close> rounds the distance of the
  two local midnights, taken as wall-clock times, to whole days.
\<close>

definition addDays :: "zone \<Rightarrow> int \<Rightarrow> int \<Rightarrow> int" where
  "addDays z date amount = UTC z (LocalTime z date + amount * msPerDay)"

definition startOfDay :: "zone \<Rightarrow> int \<Rightarrow> int" where
  "startOfDay z date = UTC z (LocalTime z date div msPerDay * msPerDay)"

definition getTimezoneOffsetInMilliseconds :: "zone \<Rightarrow> int \<Rightarrow> int" where
  "getTimezoneOffsetInMilliseconds z date = date - LocalTime z date"

definition differenceInCalendarDays :: "rounding \<Rightarrow> zone \<Rightarrow> int \<Rightarrow> int \<Rightarrow> int" where
  "differenceInCalendarDays R z dateLeft dateRight =
     (let startOfDayLeft = startOfDay z dateLeft;
          startOfDayRight = startOfDay z dateRight;
          timestampLeft = startOfDayLeft - getTimezoneOffsetInMilliseconds z startOfDayLeft;
          timestampRight = startOfDayRight - getTimezoneOffsetInMilliseconds z startOfDayRight
      in Math_round (fdiv R (of_int (timestampLeft - timestampRight)) (of_int msPerDay)))"

definition compareLocalAsc :: "zone \<Rightarrow> int \<Rightarrow> int \<Rightarrow> int" where
  "compareLocalAsc z dateLeft dateRight = sgn (LocalTime z dateLeft - LocalTime z dateRight)"

definition differenceInDays :: "rounding \<Rightarrow> zone \<Rightarrow> int \<Rightarrow> int \<Rightarrow> int" where
  "differenceInDays R z dateLeft dateRight =
     (let sign = compareLocalAsc z dateLeft dateRight;
          difference = \<bar>differenceInCalendarDays R z dateLeft dateRight\<bar>;
          shifted = addDays z dateLeft (- (sign * difference));
          isLastDayNotFull = (if compareLocalAsc z shifted dateRight = - sign then 1 else 0)
      in sign * (difference - isLastDayNotFull))"

section \<open>The state of the view and the window it derives\<close>

record gantt_state =
  startDate :: int
  endDate :: int
  timeView :: int

text \<open>
  The constants computed at the top of every render (\<^verbatim>\<open>numDays\<close>, \<^verbatim>\<open>dayStart\<close>,
  \<^verbatim>\<open>dayEnd\<close>, \<^verbatim>\<open>totalHoursInRange\<close>, \<^verbatim>\<open>numChunks\<close>) extend the state: the closures
  \<^verbatim>\<open>getFlightPosition\<close>, \<^verbatim>\<open>generateTimeLabels\<close> and \<^verbatim>\<open>generateHourSeparators\<close> read
  them from there.
\<close>

record timeline = gantt_state +
  numDays :: int
  dayStart :: int
  dayEnd :: int
  totalHoursInRange :: int
  numChunks :: int

definition initial_state :: "zone \<Rightarrow> int \<Rightarrow> gantt_state" where
  "initial_state z now =
     (let todayUTC = Date_UTC (utcDay now) 0 0 0 0
      in \<lparr>startDate = todayUTC, endDate = addDays z todayUTC 2, timeView = 24\<rparr>)"

definition GanttView :: "rounding \<Rightarrow> zone \<Rightarrow> gantt_state \<Rightarrow> timeline" where
  "GanttView R z st =
     (let days = differenceInDays R z (endDate st) (startDate st) + 1;
          hours = days * 24
      in \<lparr>startDate = startDate st, endDate = endDate st, timeView = timeView st,
          numDays = days,
          dayStart = Date_UTC (utcDay (startDate st)) 0 0 0 0,
          dayEnd = Date_UTC (utcDay (endDate st)) 23 59 59 999,
          totalHoursInRange = hours,
          numChunks = Math_ceil (fdiv R (of_int hours) (of_int (timeView st)))\<rparr>)"

text \<open>
  The two date pickers. The calendar hands over the picked day or nothing; the
  handler reads the day's fields and builds the UTC instant, midnight for the start
  and 23:59:59.999 for the end, then moves the other side when the order broke.
\<close>

definition selectStartDate :: "zone \<Rightarrow> int option \<Rightarrow> gantt_state \<Rightarrow> gantt_state" where
  "selectStartDate z date st =
     (case date of
        None \<Rightarrow> st
      | Some day \<Rightarrow>
          let utcDate = Date_UTC day 0 0 0 0
          in st\<lparr>startDate := utcDate,
                endDate := (if endDate st < utcDate then addDays z utcDate 2 else endDate st)\<rparr>)"

definition selectEndDate :: "zone \<Rightarrow> int option \<Rightarrow> gantt_state \<Rightarrow> gantt_state" where
  "selectEndDate z date st =
     (case date of
        None \<Rightarrow> st
      | Some day \<Rightarrow>
          let utcDate = Date_UTC day 23 59 59 999
          in st\<lparr>endDate := utcDate,
                startDate := (if utcDate < startDate st then addDays z utcDate (- 2) else startDate st)\<rparr>)"

section \<open>Positioning a flight\<close>

text \<open>
  The source returns \<^verbatim>\<open>left\<close> and \<^verbatim>\<open>width\<close> as the number followed by a percent
  sign; the record keeps the number.
\<close>

record flight_position =
  fp_left :: rat
  fp_width :: rat
  fp_visible :: bool
  fp_chunkIndex :: int

definition getFlightPosition :: "rounding \<Rightarrow> timeline \<Rightarrow> int \<Rightarrow> int \<Rightarrow> flight_position" where
  "getFlightPosition R w departure arrival =
     (let totalHoursFromStart =
            fdiv R (fsub R (of_int departure) (of_int (dayStart w))) (of_int (1000 * 60 * 60));
          totalHoursToArrival =
            fdiv R (fsub R (of_int arrival) (of_int (dayStart w))) (of_int (1000 * 60 * 60))
      in if totalHoursFromStart < 0 \<or> of_int (totalHoursInRange w) \<le> totalHoursFromStart
         then \<lparr>fp_left = 0, fp_width = 0, fp_visible = False, fp_chunkIndex = - 1\<rparr>
         else
           let departureChunk = Math_floor (fdiv R totalHoursFromStart (of_int (timeView w)));
               arrivalChunk = Math_floor (fdiv R totalHoursToArrival (of_int (timeView w)));
               hoursWithinChunk = js_rem totalHoursFromStart (of_int (timeView w));
               duration = fsub R totalHoursToArrival totalHoursFromStart;
               chunkLeftPercent =
                 fmul R (fdiv R (of_int departureChunk) (of_int (numChunks w))) 100;
               positionWithinChunkPercent =
                 fmul R (fdiv R hoursWithinChunk (of_int (timeView w)))
                        (fdiv R 100 (of_int (numChunks w)));
               widthPercent =
                 fmul R (fdiv R duration (of_int (timeView w)))
                        (fdiv R 100 (of_int (numChunks w)))
           in \<lparr>fp_left = fadd R chunkLeftPercent positionWithinChunkPercent,
               fp_width = Math_max (1 / 2) widthPercent,
               fp_visible = True,
               fp_chunkIndex = departureChunk\<rparr>)"

section \<open>Hour labels\<close>

text \<open>
  \<^verbatim>\<open>String(n)\<close> of a non-negative integer is its decimal numeral, and
  \<^verbatim>\<open>padStart\<close> fills a shorter string on the left.
\<close>

definition digit_char :: "nat \<Rightarrow> char" where
  \<comment> \<open>the decimal digit \<open>d < 10\<close> as a character\<close>
  "digit_char d = ''0123456789'' ! d"

fun String_nat :: "nat \<Rightarrow> string" where
  "String_nat n = (if n < 10 then [digit_char n] else String_nat (n div 10) @ [digit_char (n mod 10)])"

declare String_nat.simps [simp del]

definition String_int :: "int \<Rightarrow> string" where
  "String_int i = (if i < 0 then CHR ''-'' # String_nat (nat (- i)) else String_nat (nat i))"

definition padStart :: "nat \<Rightarrow> char \<Rightarrow> string \<Rightarrow> string" where
  "padStart targetLength c s = replicate (targetLength - length s) c @ s"

record time_label =
  tl_hour :: int
  tl_chunkIndex :: int
  tl_width :: int
  tl_label :: string

definition labelInterval :: "int \<Rightarrow> int" where
  "labelInterval hoursPerChunk =
     (if hoursPerChunk = 24 then 1 else if hoursPerChunk = 12 then 2 else 1)"

function hourLabelLoop :: "timeline \<Rightarrow> int \<Rightarrow> int \<Rightarrow> int \<Rightarrow> time_label list \<Rightarrow> time_label list" where
  "hourLabelLoop w chunkIndex chunkStartHour hour labels =
     (if hour < timeView w then
        (let absoluteHour = chunkStartHour + hour;
             hourInDayForLabel = js_rem_int absoluteHour 24
         in hourLabelLoop w chunkIndex chunkStartHour (hour + labelInterval (timeView w))
              (labels @ [\<lparr>tl_hour = hourInDayForLabel, tl_chunkIndex = chunkIndex,
                          tl_width = labelInterval (timeView w),
                          tl_label = padStart 2 (CHR ''0'') (String_int hourInDayForLabel) @ '':00''\<rparr>]))
      else labels)"
  by pat_completeness auto
termination
  by (relation "measure (\<lambda>(w, chunkIndex, chunkStartHour, hour, labels). nat (timeView w - hour))")
     (auto simp: labelInterval_def)

declare hourLabelLoop.simps [simp del]

function chunkLabelLoop :: "timeline \<Rightarrow> int \<Rightarrow> time_label list \<Rightarrow> time_label list" where
  "chunkLabelLoop w chunkIndex labels =
     (if chunkIndex < numChunks w then
        chunkLabelLoop w (chunkIndex + 1) (hourLabelLoop w chunkIndex (chunkIndex * timeView w) 0 labels)
      else labels)"
  by pat_completeness auto
termination
  by (relation "measure (\<lambda>(w, chunkIndex, labels). nat (numChunks w - chunkIndex))") auto

declare chunkLabelLoop.simps [simp del]

definition generateTimeLabels :: "timeline \<Rightarrow> time_label list" where
  "generateTimeLabels w = chunkLabelLoop w 0 []"

section \<open>Hour separators\<close>

record separator =
  sep_position :: rat
  sep_chunkIndex :: int
  sep_hour :: int

definition separatorPosition :: "rounding \<Rightarrow> timeline \<Rightarrow> int \<Rightarrow> int \<Rightarrow> rat" where
  "separatorPosition R w chunkIndex hour =
     (let chunkLeftPercent = fmul R (fdiv R (of_int chunkIndex) (of_int (numChunks w))) 100;
          hourPositionPercent =
            fmul R (fdiv R (of_int hour) (of_int (timeView w))) (fdiv R 100 (of_int (numChunks w)))
      in fadd R chunkLeftPercent hourPositionPercent)"

function hourSeparatorLoop ::
  "rounding \<Rightarrow> timeline \<Rightarrow> int \<Rightarrow> int \<Rightarrow> separator list \<Rightarrow> separator list" where
  "hourSeparatorLoop R w chunkIndex hour separators =
     (if hour \<le> timeView w then
        (let position = separatorPosition R w chunkIndex hour
         in if hour = 0 \<and> 0 < chunkIndex
            then hourSeparatorLoop R w chunkIndex (hour + 1) separators
            else hourSeparatorLoop R w chunkIndex (hour + 1)
                   (separators @ [\<lparr>sep_position = position, sep_chunkIndex = chunkIndex,
                                    sep_hour = hour\<rparr>]))
      else separators)"
  by pat_completeness auto
termination
  by (relation "measure (\<lambda>(R, w, chunkIndex, hour, separators). nat (timeView w + 1 - hour))") auto

declare hourSeparatorLoop.simps [simp del]

function chunkSeparatorLoop :: "rounding \<Rightarrow> timeline \<Rightarrow> int \<Rightarrow> separator list \<Rightarrow> separator list" where
  "chunkSeparatorLoop R w chunkIndex separators =
     (if chunkIndex < numChunks w then
        chunkSeparatorLoop R w (chunkIndex + 1) (hourSeparatorLoop R w chunkIndex 0 separators)
      else separators)"
  by pat_completeness auto
termination
  by (relation "measure (\<lambda>(R, w, chunkIndex, separators). nat (numChunks w - chunkIndex))") auto

declare chunkSeparatorLoop.simps [simp del]

definition generateHourSeparators :: "rounding \<Rightarrow> timeline \<Rightarrow> separator list" where
  "generateHourSeparators R w = chunkSeparatorLoop R w 0 []"

section \<open>Notions used in the statements\<close>

text \<open>
  What the theorems ask of the rounding step. A rounding is accurate when it keeps
  zero and moves every number of the normal range of the doubles by at most the
  fraction \<open>1 / 2 ^ 53\<close> of its size. Rounding to the nearest double is accurate, and
  so is no rounding at all.
\<close>

definition accurate :: "rounding \<Rightarrow> bool" where
  "accurate R \<longleftrightarrow> R 0 = 0 \<and> (\<forall>q. 1 / 2 ^ 1022 \<le> \<bar>q\<bar> \<longrightarrow> \<bar>R q - q\<bar> \<le> \<bar>q\<bar> / 2 ^ 53)"

text \<open>
  What the theorems ask of the time zone. The offsets of a steady zone lie within
  two hours of each other, as they do where the clock changes by an hour between a
  standard and a summer time, and a wall-clock time read off an instant is read back
  as itself.
\<close>

definition steady_zone :: "zone \<Rightarrow> bool" where
  "steady_zone z \<longleftrightarrow>
     (\<forall>t b t' b'. z t b - z t' b' \<le> 7200000)
     \<and> (\<forall>t. LocalTime z (UTC z (LocalTime z t)) = LocalTime z t)"

text \<open>
  The positioner measures a flight from \<^verbatim>\<open>dayStart\<close> in fractional hours: the
  difference of two instants, divided by the milliseconds of an hour. \<open>hoursFrom\<close> is
  that number as the code computes it, two operations and two roundings;
  \<open>hoursBetween\<close> is the quotient over the rationals.
\<close>

definition hoursFrom :: "rounding \<Rightarrow> int \<Rightarrow> int \<Rightarrow> rat" where
  "hoursFrom R a b = fdiv R (fsub R (of_int b) (of_int a)) (of_int (1000 * 60 * 60))"

definition hoursBetween :: "int \<Rightarrow> int \<Rightarrow> rat" where
  "hoursBetween a b = of_int (b - a) / 3600000"

text \<open>
  The window of the specification's scenarios, 2025-01-01 to 2025-01-02, as the end
  picker leaves it, and the window of the single day 2025-01-01. 2025-01-01 is day
  20089 after the epoch. \<open>default_six\<close> is the window the view opens with at noon of
  that day (three days), seen in 6-hour chunks.
\<close>

definition window_2025 :: "int \<Rightarrow> gantt_state" where
  "window_2025 hoursPerChunk =
     \<lparr>startDate = Date_UTC 20089 0 0 0 0, endDate = Date_UTC 20090 23 59 59 999,
      timeView = hoursPerChunk\<rparr>"

definition single_day :: "int \<Rightarrow> gantt_state" where
  "single_day hoursPerChunk =
     \<lparr>startDate = Date_UTC 20089 0 0 0 0, endDate = Date_UTC 20089 23 59 59 999,
      timeView = hoursPerChunk\<rparr>"

definition default_six :: gantt_state where
  "default_six = (initial_state utc_zone (Date_UTC 20089 12 0 0 0))\<lparr>timeView := 6\<rparr>"

text \<open>
  A browser in New York. \<open>march_state\<close> is the state the view opens with on
  2025-03-01; \<open>dst_window\<close> is the state after picking 2025-03-09 (day 20156) as start
  date and 2025-03-10 as end date. The clocks of New York go forward in the night to
  2025-03-09.
\<close>

definition march_state :: gantt_state where
  "march_state = initial_state new_york_2025 (Date_UTC 20148 12 0 0 0)"

definition dst_window :: gantt_state where
  "dst_window =
     selectEndDate new_york_2025 (Some 20157)
       (selectStartDate new_york_2025 (Some 20156) march_state)"

text \<open>
  One separator and one label, as the loop bodies build them, and the hours a chunk
  contributes.
\<close>

definition separatorAt :: "rounding \<Rightarrow> timeline \<Rightarrow> int \<Rightarrow> int \<Rightarrow> separator" where
  "separatorAt R w c h = \<lparr>sep_position = separatorPosition R w c h, sep_chunkIndex = c, sep_hour = h\<rparr>"

definition boundaryHours :: "int \<Rightarrow> int \<Rightarrow> int list" where
  "boundaryHours tv c = (if c = 0 then [0..tv] else [1..tv])"

definition labelAt :: "int \<Rightarrow> int \<Rightarrow> int \<Rightarrow> int \<Rightarrow> time_label" where
  "labelAt c s i h =
     \<lparr>tl_hour = js_rem_int (s + h) 24, tl_chunkIndex = c, tl_width = i,
      tl_label = padStart 2 (CHR ''0'') (String_int (js_rem_int (s + h) 24)) @ '':00''\<rparr>"

definition tickHours :: "int \<Rightarrow> int list" where
  "tickHours tv = (if tv = 12 then [0, 2, 4, 6, 8, 10] else [0..tv - 1])"

definition hourOfDayLabel :: "int \<Rightarrow> int \<Rightarrow> int \<Rightarrow> int \<Rightarrow> time_label" where
  "hourOfDayLabel tv c i h =
     \<lparr>tl_hour = (c * tv + h) mod 24, tl_chunkIndex = c, tl_width = i,
      tl_label = [digit_char (nat ((c * tv + h) mod 24) div 10),
                  digit_char (nat ((c * tv + h) mod 24) mod 10)] @ '':00''\<rparr>"

text \<open>
  The distance of a computed number \<open>y\<close> from the number \<open>x\<close> it stands for, after
  \<open>k\<close> roundings: \<open>y\<close> lies between \<open>x * (1 - 1 / 2 ^ 53) ^ k\<close> and
  \<open>x * (1 + 1 / 2 ^ 53) ^ k\<close>.
\<close>

definition near :: "nat \<Rightarrow> rat \<Rightarrow> rat \<Rightarrow> bool" where
  "near k x y \<longleftrightarrow> x * (1 - 1 / 2 ^ 53) ^ k \<le> y \<and> y \<le> x * (1 + 1 / 2 ^ 53) ^ k"

section \<open>Rounding to doubles\<close>

text \<open>
  The rounding on known values: integers stay, \<open>1 / 10\<close> becomes the double
  0.1 = 3602879701896397 / 2^55, and \<open>0.1 + 0.2\<close> is not \<open>0.3\<close>.
\<close>

lemma binary64_integers: "binary64 0 = 0" "binary64 1 = 1" "binary64 100 = 100" "binary64 (- 3) = - 3"
  by code_simp+

lemma binary64_tenth: "binary64 (1 / 10) = 3602879701896397 / 2 ^ 55"
  by code_simp

lemma binary64_fifth: "binary64 (2 / 10) = 3602879701896397 / 2 ^ 54"
  by code_simp

lemma binary64_sum_tenths:
  "fadd binary64 (3602879701896397 / 2 ^ 55) (3602879701896397 / 2 ^ 54) = 1351079888211149 / 2 ^ 52"
  by code_simp

lemma binary64_three_tenths: "binary64 (3 / 10) = 5404319552844595 / 2 ^ 54"
  by code_simp

text \<open>
  Rounding to the nearest double is accurate: the mantissa of a number of the normal
  range has 53 bits, and the rounding moves it by at most half a unit of the last
  one.
\<close>

lemma bitlen_pos: "0 < n \<Longrightarrow> 1 \<le> bitlen n \<and> 2 ^ nat (bitlen n - 1) \<le> n \<and> n < 2 ^ nat (bitlen n)"
proof (induction n rule: bitlen.induct)
  case (1 n)
  show ?case
  proof (cases "n = 1")
    case True
    then show ?thesis by (simp add: bitlen.simps [of 1] bitlen.simps [of 0])
  next
    case False
    with "1.prems" have half: "0 < n div 2" by simp
    from "1.prems" have "\<not> n \<le> 0" by simp
    from "1.IH" [OF this half] have ih: "1 \<le> bitlen (n div 2)"
      "2 ^ nat (bitlen (n div 2) - 1) \<le> n div 2" "n div 2 < 2 ^ nat (bitlen (n div 2))"
      by simp_all
    have b: "bitlen n = 1 + bitlen (n div 2)"
      using "1.prems" by (subst bitlen.simps) simp
    have e1: "nat (bitlen n - 1) = Suc (nat (bitlen (n div 2) - 1))"
      using ih(1) b by simp
    have e2: "nat (bitlen n) = Suc (nat (bitlen (n div 2)))"
      using ih(1) b by simp
    have "2 * 2 ^ nat (bitlen (n div 2) - 1) \<le> n"
      using ih(2) by simp
    moreover have "n < 2 * 2 ^ nat (bitlen (n div 2))"
      using ih(3) by presburger
    ultimately have "2 ^ nat (bitlen n - 1) \<le> n" "n < 2 ^ nat (bitlen n)"
      unfolding e1 e2 by simp_all
    moreover have "1 \<le> bitlen n" using ih(1) b by simp
    ultimately show ?thesis by simp
  qed
qed

lemma binary_exponent_le:
  assumes "0 < a"
  shows "2 powi binary_exponent a \<le> a"
proof -
  obtain p d where pd: "quotient_of a = (p, d)" by fastforce
  have d: "0 < d" using quotient_of_denom_pos [OF pd] .
  have a: "a = of_int p / of_int d" using quotient_of_div [OF pd] .
  have p: "0 < p" using assms d unfolding a by (simp add: zero_less_divide_iff)
  let ?e0 = "bitlen p - bitlen d"
  show ?thesis
  proof (cases "2 powi ?e0 \<le> a")
    case True
    then show ?thesis by (simp add: binary_exponent_def pd)
  next
    case False
    then have e: "binary_exponent a = ?e0 - 1" by (simp add: binary_exponent_def pd)
    from bitlen_pos [OF p] have bp: "1 \<le> bitlen p" "2 ^ nat (bitlen p - 1) \<le> p" by simp_all
    from bitlen_pos [OF d] have bd: "1 \<le> bitlen d" "d < 2 ^ nat (bitlen d)" by simp_all
    have eq: "?e0 - 1 = (bitlen p - 1) - bitlen d" by simp
    have "(2::rat) powi (?e0 - 1) = 2 powi (bitlen p - 1) / 2 powi bitlen d"
      unfolding eq by (rule power_int_diff) simp
    also have "\<dots> = 2 ^ nat (bitlen p - 1) / 2 ^ nat (bitlen d)"
      using bp(1) bd(1) by (simp add: power_int_nonneg_exp)
    also have "\<dots> \<le> of_int p / of_int d"
    proof (rule frac_le)
      show "(0::rat) \<le> of_int p" using p by simp
      have "rat_of_int (2 ^ nat (bitlen p - 1)) \<le> of_int p" using bp(2) by (simp only: of_int_le_iff)
      then show "(2::rat) ^ nat (bitlen p - 1) \<le> of_int p" by simp
      show "(0::rat) < of_int d" using d by simp
      have "rat_of_int d \<le> of_int (2 ^ nat (bitlen d))" using bd(2) by (simp only: of_int_le_iff less_imp_le)
      then show "rat_of_int d \<le> 2 ^ nat (bitlen d)" by simp
    qed
    finally have "(2::rat) powi (?e0 - 1) \<le> of_int p / of_int d" .
    then show ?thesis unfolding e using a by simp
  qed
qed

lemma round_half_even_near: "\<bar>of_int (round_half_even m) - m\<bar> \<le> 1 / 2"
proof -
  have "of_int \<lfloor>m\<rfloor> \<le> m" "m < of_int \<lfloor>m\<rfloor> + 1" by linarith+
  then show ?thesis
    by (auto simp: round_half_even_def Let_def abs_le_iff)
qed

lemma accurate_exact: "accurate exact"
  by (simp add: accurate_def exact_def)

lemma subnormal_spacing: "(2::rat) powi (- 1074) = (1 / 2 ^ 1022) / 2 ^ 52"
proof -
  have "(2::rat) powi (- 1074) = 1 / 2 ^ 1074"
    by (simp only: power_int_minus_divide power_int_numeral)
  also have "(2::rat) ^ 1074 = 2 ^ (1022 + 52)" by simp
  also have "\<dots> = 2 ^ 1022 * 2 ^ 52" by (rule power_add)
  finally show ?thesis by (simp only: divide_divide_eq_left)
qed

lemma binary64_error:
  assumes q: "q \<noteq> 0" and big: "t \<le> \<bar>q\<bar>" and t: "t = 1 / 2 ^ 1022"
  shows "\<bar>binary64 q - q\<bar> \<le> \<bar>q\<bar> / 2 ^ 53"
proof -
  define a where "a = \<bar>q\<bar>"
  define u :: rat where "u = 2 powi (max (binary_exponent a - 52) (- 1074))"
  define k where "k = round_half_even (a / u)"
  have a: "0 < a" using q by (simp add: a_def)
  have u: "0 < u" by (simp add: u_def)
  have r: "binary64 q = sgn q * of_int k * u"
    using q by (simp add: binary64_def Let_def a_def u_def k_def)
  have ule: "u \<le> a / 2 ^ 52"
  proof (cases "- 1074 \<le> binary_exponent a - 52")
    case True
    then have "max (binary_exponent a - 52) (- 1074) = binary_exponent a - 52"
      by (rule max_absorb1)
    then have "u = 2 powi (binary_exponent a - 52)"
      by (simp only: u_def)
    also have "\<dots> = 2 powi binary_exponent a / 2 powi 52"
      by (rule power_int_diff) simp
    also have "\<dots> = 2 powi binary_exponent a / 2 ^ 52"
      by (simp only: power_int_numeral)
    also have "\<dots> \<le> a / 2 ^ 52"
      using binary_exponent_le [OF a] by (rule divide_right_mono) simp
    finally show ?thesis .
  next
    case False
    then have "max (binary_exponent a - 52) (- 1074) = - 1074"
      by (intro max_absorb2) simp
    then have "u = 2 powi (- 1074)" by (simp only: u_def)
    also have "\<dots> = t / 2 ^ 52"
      unfolding t by (rule subnormal_spacing)
    also have "\<dots> \<le> a / 2 ^ 52"
      using big unfolding a_def by (rule divide_right_mono) simp
    finally show ?thesis .
  qed
  have "sgn q * a = q" by (simp add: a_def mult_sgn_abs)
  then have "binary64 q - q = sgn q * (of_int k * u - a)"
    unfolding r by (simp only: right_diff_distrib mult.assoc)
  then have "\<bar>binary64 q - q\<bar> = \<bar>sgn q\<bar> * \<bar>of_int k * u - a\<bar>"
    by (simp only: abs_mult)
  also have "\<dots> = \<bar>of_int k * u - a\<bar>"
    using q by simp
  also have "of_int k * u - a = u * (of_int k - a / u)"
    using u by (simp add: right_diff_distrib)
  also have "\<bar>u * (of_int k - a / u)\<bar> = u * \<bar>of_int k - a / u\<bar>"
    using u by (simp add: abs_mult)
  also have "\<dots> \<le> u * (1 / 2)"
    using u round_half_even_near [of "a / u"] unfolding k_def by (intro mult_left_mono) simp_all
  also have "\<dots> \<le> (a / 2 ^ 52) * (1 / 2)"
    using ule by (rule mult_right_mono) simp
  also have "\<dots> = a / (2 ^ 52 * 2)"
    by (simp only: times_divide_times_eq mult_1_right)
  also have "(2::rat) ^ 52 * 2 = 2 ^ 53" by simp
  finally show ?thesis unfolding a_def .
qed

lemma accurate_binary64: "accurate binary64"
  unfolding accurate_def
proof (intro conjI allI impI)
  show "binary64 0 = 0" by (simp add: binary64_def)
next
  fix q :: rat
  assume big: "1 / 2 ^ 1022 \<le> \<bar>q\<bar>"
  have "(0::rat) < 1 / 2 ^ 1022" by (simp only: zero_less_divide_1_iff zero_less_power zero_less_numeral)
  with big have "q \<noteq> 0" by auto
  then show "\<bar>binary64 q - q\<bar> \<le> \<bar>q\<bar> / 2 ^ 53"
    using big by (rule binary64_error) (rule refl)
qed

section \<open>Time zones and the date library\<close>

text \<open>
  The zone without offset and the zone of New York are steady. In a steady zone the
  library counts no negative number of days from an earlier to a later instant.
\<close>

lemma steady_utc_zone: "steady_zone utc_zone"
  by (simp add: steady_zone_def utc_zone_def LocalTime_def UTC_def)

lemma steady_new_york_2025: "steady_zone new_york_2025"
  unfolding steady_zone_def
proof (intro conjI allI)
  fix t t' :: int and b b' :: bool
  show "new_york_2025 t b - new_york_2025 t' b' \<le> 7200000"
    by (simp add: new_york_2025_def)
next
  fix t :: int
  show "LocalTime new_york_2025 (UTC new_york_2025 (LocalTime new_york_2025 t)) = LocalTime new_york_2025 t"
    by (simp add: new_york_2025_def LocalTime_def UTC_def Date_UTC_def msPerDay_def)
qed

lemma zone_span:
  assumes "steady_zone z"
  shows "LocalTime z a - LocalTime z b \<le> a - b + 7200000"
    and "X - 7200000 \<le> LocalTime z (UTC z X)"
    and "LocalTime z (UTC z X) \<le> X + 7200000"
proof -
  from assms have span: "z t b - z t' b' \<le> 7200000" for t b t' b'
    by (simp add: steady_zone_def)
  show "LocalTime z a - LocalTime z b \<le> a - b + 7200000"
    using span [of a True b True] by (simp add: LocalTime_def)
  show "X - 7200000 \<le> LocalTime z (UTC z X)"
    using span [of X False "X - z X False" True] by (simp add: LocalTime_def UTC_def)
  show "LocalTime z (UTC z X) \<le> X + 7200000"
    using span [of "X - z X False" True X False] by (simp add: LocalTime_def UTC_def)
qed

lemma floor_half_rat [simp]: "\<lfloor>1 / 2 :: rat\<rfloor> = 0"
  by (simp add: floor_eq_iff)

lemma Math_round_near_zero:
  assumes R: "accurate R" and lo: "- 7 / 6 \<le> q" and hi: "q \<le> 1 / 6"
      and q: "q = 0 \<or> 1 / 2 ^ 1022 \<le> \<bar>q\<bar>"
  shows "Math_round (R q) = - 1 \<or> Math_round (R q) = 0"
proof (cases "q = 0")
  case True
  with R show ?thesis by (simp add: accurate_def Math_round_def)
next
  case False
  with q R have "\<bar>R q - q\<bar> \<le> \<bar>q\<bar> / 2 ^ 53" by (simp add: accurate_def)
  moreover have "\<bar>q\<bar> \<le> 7 / 6" using lo hi by (simp add: abs_le_iff)
  then have "\<bar>q\<bar> / 2 ^ 53 \<le> 1 / 6" by simp
  ultimately have "\<bar>R q - q\<bar> \<le> 1 / 6" by linarith
  with lo hi have "- 3 / 2 \<le> R q" "R q < 1 / 2" by linarith+
  then have "- 1 \<le> \<lfloor>R q + 1 / 2\<rfloor>" "\<lfloor>R q + 1 / 2\<rfloor> < 1"
    by (simp_all add: le_floor_iff floor_less_iff)
  then show ?thesis by (simp add: Math_round_def) linarith
qed

lemma differenceInDays_nonneg:
  assumes z: "steady_zone z" and R: "accurate R" and le: "dateRight \<le> dateLeft"
  shows "0 \<le> differenceInDays R z dateLeft dateRight"
proof -
  let ?L = "LocalTime z"
  define c where "c = differenceInCalendarDays R z dateLeft dateRight"
  define shifted where "shifted = addDays z dateLeft (- (sgn (?L dateLeft - ?L dateRight) * \<bar>c\<bar>))"
  have unfold: "differenceInDays R z dateLeft dateRight =
      sgn (?L dateLeft - ?L dateRight)
        * (\<bar>c\<bar> - (if sgn (?L shifted - ?L dateRight) = - sgn (?L dateLeft - ?L dateRight) then 1 else 0))"
    by (simp add: differenceInDays_def compareLocalAsc_def Let_def c_def shifted_def)
  consider (eq) "?L dateLeft = ?L dateRight" | (gt) "?L dateRight < ?L dateLeft"
    | (lt) "?L dateLeft < ?L dateRight" by linarith
  then show ?thesis
  proof cases
    case eq
    then show ?thesis by (simp add: unfold)
  next
    case gt
    then have s: "sgn (?L dateLeft - ?L dateRight) = 1" by simp
    show ?thesis
    proof (cases "c = 0")
      case True
      then have "shifted = UTC z (?L dateLeft)" by (simp add: shifted_def addDays_def)
      then have "?L shifted = ?L dateLeft" using z by (simp add: steady_zone_def)
      with gt show ?thesis by (simp add: unfold s True)
    next
      case False
      then have "1 \<le> \<bar>c\<bar>" by simp
      then show ?thesis by (simp add: unfold s)
    qed
  next
    case lt
    then have s: "sgn (?L dateLeft - ?L dateRight) = - 1" by simp
    have near: "?L dateRight \<le> ?L dateLeft + 7200000"
      using zone_span(1) [OF z, of dateRight dateLeft] le by simp
    define Fl Fr where "Fl = ?L dateLeft div msPerDay * msPerDay"
      and "Fr = ?L dateRight div msPerDay * msPerDay"
    have F: "Fl \<le> Fr" "Fr \<le> Fl + msPerDay"
    proof -
      have pos: "0 < msPerDay" by (simp add: msPerDay_def)
      have "?L dateLeft div msPerDay \<le> ?L dateRight div msPerDay"
        using lt pos by (simp add: zdiv_mono1)
      then show "Fl \<le> Fr"
        unfolding Fl_def Fr_def using pos by (simp add: mult_right_mono)
      have "?L dateRight \<le> ?L dateLeft + msPerDay"
        using near by (simp add: msPerDay_def)
      then have "?L dateRight div msPerDay \<le> (?L dateLeft + msPerDay) div msPerDay"
        using pos by (rule zdiv_mono1)
      also have "\<dots> = ?L dateLeft div msPerDay + 1"
        using pos by simp
      finally have "?L dateRight div msPerDay * msPerDay \<le> (?L dateLeft div msPerDay + 1) * msPerDay"
        using pos by (simp only: mult_right_mono less_imp_le)
      then show "Fr \<le> Fl + msPerDay"
        unfolding Fl_def Fr_def by (simp add: algebra_simps)
    qed
    define x where "x = ?L (UTC z Fl) - ?L (UTC z Fr)"
    have c: "c = Math_round (fdiv R (of_int x) (of_int msPerDay))"
      by (simp add: c_def differenceInCalendarDays_def Let_def startOfDay_def
          getTimezoneOffsetInMilliseconds_def x_def Fl_def Fr_def)
    have x: "- msPerDay - 14400000 \<le> x" "x \<le> 14400000"
      using zone_span(2,3) [OF z, of Fl] zone_span(2,3) [OF z, of Fr] F
      unfolding x_def by linarith+
    let ?q = "rat_of_int x / rat_of_int msPerDay"
    have q1: "- 7 / 6 \<le> ?q"
    proof -
      have "rat_of_int (- 100800000) \<le> rat_of_int x"
        using x(1) unfolding msPerDay_def by (simp only: of_int_le_iff)
      then show ?thesis by (simp add: msPerDay_def field_simps)
    qed
    have q2: "?q \<le> 1 / 6"
    proof -
      have "rat_of_int x \<le> rat_of_int 14400000"
        using x(2) by (simp only: of_int_le_iff)
      then show ?thesis by (simp add: msPerDay_def field_simps)
    qed
    have q3: "?q = 0 \<or> 1 / 2 ^ 1022 \<le> \<bar>?q\<bar>"
    proof (cases "x = 0")
      case True
      then show ?thesis by simp
    next
      case False
      then have "1 \<le> \<bar>x\<bar>" by simp
      then have "rat_of_int 1 \<le> rat_of_int \<bar>x\<bar>" by (simp only: of_int_le_iff)
      then have "1 / 86400000 \<le> \<bar>?q\<bar>"
        by (simp add: msPerDay_def field_simps)
      moreover have "(1::rat) / 2 ^ 1022 \<le> 1 / 86400000"
        by simp
      ultimately show ?thesis by linarith
    qed
    have "c = - 1 \<or> c = 0"
      unfolding c fdiv_def using R q1 q2 q3 by (rule Math_round_near_zero)
    then show ?thesis
    proof
      assume c0: "c = 0"
      then show ?thesis by (simp add: unfold s)
    next
      assume c1: "c = - 1"
      then have "shifted = UTC z (?L dateLeft + msPerDay)"
        by (simp add: shifted_def addDays_def s)
      then have "?L dateLeft + msPerDay - 7200000 \<le> ?L shifted"
        using zone_span(2) [OF z, of "?L dateLeft + msPerDay"] by simp
      with near have "?L dateRight < ?L shifted" by (simp add: msPerDay_def)
      then have "sgn (?L shifted - ?L dateRight) = 1" by simp
      then show ?thesis by (simp add: unfold s c1)
    qed
  qed
qed

section \<open>The date pickers\<close>

lemma addDays_later:
  assumes "steady_zone z"
  shows "date < addDays z date 2" and "addDays z date (- 2) < date"
proof -
  from assms have span: "z t b - z t' b' \<le> 7200000" for t b t' b'
    by (simp add: steady_zone_def)
  show "date < addDays z date 2"
    using span [of "date + z date True + 2 * msPerDay" False date True]
    by (simp add: addDays_def LocalTime_def UTC_def msPerDay_def)
  show "addDays z date (- 2) < date"
    using span [of date True "date + z date True - 2 * msPerDay" False]
    by (simp add: addDays_def LocalTime_def UTC_def msPerDay_def)
qed

text \<open>
  Claim C8. In a steady time zone, after a start-date selection and after an
  end-date selection the picked side is the picked day, and the start date is not
  after the end date, whatever the state was before: where the pick would have
  crossed the other side, the other side has moved by two days. The window
  calculator then counts at least one day. The witness is a browser in New York: a
  start date picked after the end date, across the clock change of 2025-03-09, and an
  end date picked before the start date.
\<close>

theorem select_keeps_order:
  assumes "steady_zone z" and "accurate R"
  shows "startDate (selectStartDate z (Some day) st) = Date_UTC day 0 0 0 0
   \<and> startDate (selectStartDate z (Some day) st) \<le> endDate (selectStartDate z (Some day) st)
   \<and> 1 \<le> numDays (GanttView R z (selectStartDate z (Some day) st))
   \<and> endDate (selectEndDate z (Some day) st) = Date_UTC day 23 59 59 999
   \<and> startDate (selectEndDate z (Some day) st) \<le> endDate (selectEndDate z (Some day) st)
   \<and> 1 \<le> numDays (GanttView R z (selectEndDate z (Some day) st))"
proof -
  have s: "startDate (selectStartDate z (Some day) st) \<le> endDate (selectStartDate z (Some day) st)"
    using addDays_later(1) [OF assms(1), of "Date_UTC day 0 0 0 0"]
    by (simp add: selectStartDate_def Let_def)
  have e: "startDate (selectEndDate z (Some day) st) \<le> endDate (selectEndDate z (Some day) st)"
    using addDays_later(2) [OF assms(1), of "Date_UTC day 23 59 59 999"]
    by (simp add: selectEndDate_def Let_def)
  have "1 \<le> numDays (GanttView R z (selectStartDate z (Some day) st))"
    using differenceInDays_nonneg [OF assms s] by (simp add: GanttView_def Let_def)
  moreover have "1 \<le> numDays (GanttView R z (selectEndDate z (Some day) st))"
    using differenceInDays_nonneg [OF assms e] by (simp add: GanttView_def Let_def)
  moreover have "startDate (selectStartDate z (Some day) st) = Date_UTC day 0 0 0 0"
    and "endDate (selectEndDate z (Some day) st) = Date_UTC day 23 59 59 999"
    by (simp_all add: selectStartDate_def selectEndDate_def Let_def)
  ultimately show ?thesis using s e by simp
qed

lemma march_state_eval:
  "march_state = \<lparr>startDate = 1740787200000, endDate = 1740960000000, timeView = 24\<rparr>"
  by (simp add: march_state_def initial_state_def addDays_def LocalTime_def UTC_def new_york_2025_def
      Date_UTC_def utcDay_def msPerDay_def Let_def)

theorem select_keeps_order_witness:
  "selectStartDate new_york_2025 (Some 20156) march_state
      = \<lparr>startDate = 1741478400000, endDate = 1741647600000, timeView = 24\<rparr>
   \<and> 1 \<le> numDays (GanttView binary64 new_york_2025 (selectStartDate new_york_2025 (Some 20156) march_state))
   \<and> selectEndDate new_york_2025 (Some 20140) march_state
      = \<lparr>startDate = 1740009599999, endDate = 1740182399999, timeView = 24\<rparr>
   \<and> 1 \<le> numDays (GanttView binary64 new_york_2025 (selectEndDate new_york_2025 (Some 20140) march_state))"
  using select_keeps_order [OF steady_new_york_2025 accurate_binary64, of 20156 march_state]
    select_keeps_order [OF steady_new_york_2025 accurate_binary64, of 20140 march_state]
  by (simp add: march_state_eval selectStartDate_def selectEndDate_def addDays_def LocalTime_def UTC_def
      new_york_2025_def Date_UTC_def msPerDay_def Let_def)

section \<open>The event positioner\<close>

lemmas exact_arith =
  fadd_def fsub_def fmul_def fdiv_def exact_def Math_floor_def Math_ceil_def Math_max_def

lemma js_rem_nonneg:
  "0 \<le> x \<Longrightarrow> 0 < y \<Longrightarrow> js_rem x y = x - y * of_int \<lfloor>x / y\<rfloor>"
  using divide_nonneg_pos [of x y] by (simp add: js_rem_def not_less [symmetric])

lemma getFlightPosition_shown:
  assumes tv: "0 < timeView w"
      and lo: "0 \<le> hoursFrom R (dayStart w) departure"
      and hi: "hoursFrom R (dayStart w) departure < of_int (totalHoursInRange w)"
  shows "getFlightPosition R w departure arrival =
     \<lparr>fp_left =
        fadd R
          (fmul R (fdiv R (of_int \<lfloor>fdiv R (hoursFrom R (dayStart w) departure) (of_int (timeView w))\<rfloor>)
                          (of_int (numChunks w))) 100)
          (fmul R (fdiv R (hoursFrom R (dayStart w) departure
                             - of_int (timeView w)
                               * of_int \<lfloor>hoursFrom R (dayStart w) departure / of_int (timeView w)\<rfloor>)
                          (of_int (timeView w)))
                  (fdiv R 100 (of_int (numChunks w)))),
      fp_width =
        max (1 / 2)
          (fmul R (fdiv R (fsub R (hoursFrom R (dayStart w) arrival)
                                  (hoursFrom R (dayStart w) departure))
                          (of_int (timeView w)))
                  (fdiv R 100 (of_int (numChunks w)))),
      fp_visible = True,
      fp_chunkIndex = \<lfloor>fdiv R (hoursFrom R (dayStart w) departure) (of_int (timeView w))\<rfloor>\<rparr>"
proof -
  have rem: "js_rem (hoursFrom R (dayStart w) departure) (of_int (timeView w))
               = hoursFrom R (dayStart w) departure
                   - of_int (timeView w)
                     * of_int \<lfloor>hoursFrom R (dayStart w) departure / of_int (timeView w)\<rfloor>"
    using lo tv by (simp add: js_rem_nonneg)
  from lo hi show ?thesis
    unfolding getFlightPosition_def hoursFrom_def [symmetric] Let_def rem
    by (simp add: Math_floor_def Math_max_def not_less not_le)
qed

lemma duration_exact:
  "fsub exact (hoursFrom exact s arrival) (hoursFrom exact s departure)
     = of_int (arrival - departure) / 3600000"
  by (simp add: hoursFrom_def fsub_def fdiv_def exact_def diff_divide_distrib [symmetric])

lemma GanttView_window_2025_doubles:
  "GanttView binary64 utc_zone (window_2025 24) =
     \<lparr>startDate = 1735689600000, endDate = 1735862399999, timeView = 24,
      numDays = 2, dayStart = 1735689600000, dayEnd = 1735862399999,
      totalHoursInRange = 48, numChunks = 2\<rparr>"
  "GanttView binary64 utc_zone (window_2025 6) =
     \<lparr>startDate = 1735689600000, endDate = 1735862399999, timeView = 6,
      numDays = 2, dayStart = 1735689600000, dayEnd = 1735862399999,
      totalHoursInRange = 48, numChunks = 8\<rparr>"
  by code_simp+

text \<open>
  Claim C1. In a window with a chunk size of 6, 12 or 24 hours,
  \<open>totalHoursInRange = numDays * 24\<close> and
  \<open>numChunks = ceil (totalHoursInRange / timeView)\<close>, a flight that departs \<open>h\<close>
  hours after \<open>dayStart\<close> with \<open>0 \<le> h < totalHoursInRange\<close> is visible, its chunk is
  \<open>floor (h / timeView)\<close>, its left edge is
  \<open>chunk / numChunks * 100 + (h mod timeView) / timeView * (100 / numChunks)\<close>, where
  \<open>h mod timeView\<close> is \<open>h - timeView * floor (h / timeView)\<close>, and its width is the
  larger of 0.5 and \<open>duration / timeView * (100 / numChunks)\<close>. This holds with
  every operation rounded as the code rounds it, for any rounding \<open>R\<close>: \<open>h\<close> is the
  number \<open>hoursFrom R dayStart departure\<close> the code compares with the bounds, and the
  duration is the difference of the two hour counts, arrival minus departure, as the
  code subtracts them. Over the rationals that difference is the time from departure
  to arrival in hours. The witness is the flight of the specification's first
  scenario, computed in doubles: left and width are the double 10.416666666666668.
\<close>

theorem getFlightPosition_inside:
  assumes "timeView w \<in> {6, 12, 24}"
      and "totalHoursInRange w = numDays w * 24"
      and "numChunks w = Math_ceil (fdiv R (of_int (totalHoursInRange w)) (of_int (timeView w)))"
      and "0 \<le> hoursFrom R (dayStart w) departure"
      and "hoursFrom R (dayStart w) departure < of_int (totalHoursInRange w)"
  shows "getFlightPosition R w departure arrival =
     \<lparr>fp_left =
        fadd R
          (fmul R (fdiv R (of_int \<lfloor>fdiv R (hoursFrom R (dayStart w) departure) (of_int (timeView w))\<rfloor>)
                          (of_int (numChunks w))) 100)
          (fmul R (fdiv R (hoursFrom R (dayStart w) departure
                             - of_int (timeView w)
                               * of_int \<lfloor>hoursFrom R (dayStart w) departure / of_int (timeView w)\<rfloor>)
                          (of_int (timeView w)))
                  (fdiv R 100 (of_int (numChunks w)))),
      fp_width =
        max (1 / 2)
          (fmul R (fdiv R (fsub R (hoursFrom R (dayStart w) arrival)
                                  (hoursFrom R (dayStart w) departure))
                          (of_int (timeView w)))
                  (fdiv R 100 (of_int (numChunks w)))),
      fp_visible = True,
      fp_chunkIndex = \<lfloor>fdiv R (hoursFrom R (dayStart w) departure) (of_int (timeView w))\<rfloor>\<rparr>
   \<and> fsub exact (hoursFrom exact (dayStart w) arrival) (hoursFrom exact (dayStart w) departure)
       = of_int (arrival - departure) / 3600000"
proof -
  from assms(1) have "0 < timeView w" by auto
  then show ?thesis using assms(4,5) by (simp only: getFlightPosition_shown duration_exact simp_thms)
qed

theorem getFlightPosition_inside_witness:
  "getFlightPosition binary64 (GanttView binary64 utc_zone (window_2025 24))
      (Date_UTC 20089 5 0 0 0) (Date_UTC 20089 10 0 0 0) =
     \<lparr>fp_left = 2932031007402667 / 2 ^ 48, fp_width = 2932031007402667 / 2 ^ 48,
      fp_visible = True, fp_chunkIndex = 0\<rparr>"
proof -
  let ?w = "GanttView binary64 utc_zone (window_2025 24)"
  have h: "hoursFrom binary64 (dayStart ?w) (Date_UTC 20089 5 0 0 0) = 5"
    by code_simp
  have c: "Math_ceil (fdiv binary64 48 24) = 2"
    by code_simp
  have w: "timeView ?w \<in> {6, 12, 24}" "totalHoursInRange ?w = numDays ?w * 24"
    "numChunks ?w = Math_ceil (fdiv binary64 (of_int (totalHoursInRange ?w)) (of_int (timeView ?w)))"
    by (simp_all add: GanttView_window_2025_doubles c)
  have res: "getFlightPosition binary64 ?w (Date_UTC 20089 5 0 0 0) (Date_UTC 20089 10 0 0 0) =
     \<lparr>fp_left = 2932031007402667 / 2 ^ 48, fp_width = 2932031007402667 / 2 ^ 48,
      fp_visible = True, fp_chunkIndex = 0\<rparr>"
    by code_simp
  from getFlightPosition_inside [OF w, of "Date_UTC 20089 5 0 0 0" "Date_UTC 20089 10 0 0 0"] h res
  show ?thesis by simp
qed

lemma floor_rat_numeral [simp]:
  "\<lfloor>numeral a / numeral b :: rat\<rfloor> = numeral a div numeral b"
  by (metis floor_divide_of_int_eq of_int_numeral)

lemma GanttView_window_2025_exact:
  "tv \<in> {6, 12, 24} \<Longrightarrow> GanttView exact utc_zone (window_2025 tv) =
     \<lparr>startDate = 1735689600000, endDate = 1735862399999, timeView = tv,
      numDays = 2, dayStart = 1735689600000, dayEnd = 1735862399999,
      totalHoursInRange = 48, numChunks = 48 div tv\<rparr>"
  by (auto simp: GanttView_def window_2025_def Date_UTC_def utcDay_def msPerDay_def
      differenceInDays_def differenceInCalendarDays_def compareLocalAsc_def addDays_def
      startOfDay_def getTimezoneOffsetInMilliseconds_def LocalTime_def UTC_def utc_zone_def
      Math_round_def Math_ceil_def fdiv_def exact_def Let_def)

text \<open>
  Claim C9. In the window 2025-01-01 to 2025-01-02 with 6-hour chunks there are 8
  chunks; the flight departing 2025-01-01T07:00Z departs 7 hours after \<open>dayStart\<close>,
  in chunk 1, 1 hour into the chunk. In doubles the first summand of its left edge
  is 12.5, the second is 2.08 to two decimals, and the left edge, their rounded sum,
  is 14.58 to two decimals. In exact arithmetic the left edge is
  \<open>(1/8) * 100 + (1/6) * (100/8)\<close>, again 14.58 to two decimals.
\<close>

theorem scenario_six_hours:
  "numChunks (GanttView binary64 utc_zone (window_2025 6)) = 8
   \<and> hoursFrom binary64 (dayStart (GanttView binary64 utc_zone (window_2025 6)))
        (Date_UTC 20089 7 0 0 0) = 7
   \<and> fp_chunkIndex (getFlightPosition binary64 (GanttView binary64 utc_zone (window_2025 6))
        (Date_UTC 20089 7 0 0 0) arrival) = 1
   \<and> js_rem 7 (of_int (timeView (GanttView binary64 utc_zone (window_2025 6)))) = 1
   \<and> fmul binary64 (fdiv binary64 1 8) 100 = 25 / 2
   \<and> \<bar>fmul binary64 (fdiv binary64 1 6) (fdiv binary64 100 8) - 208 / 100\<bar> < 1 / 200
   \<and> fp_left (getFlightPosition binary64 (GanttView binary64 utc_zone (window_2025 6))
        (Date_UTC 20089 7 0 0 0) arrival)
       = fadd binary64 (fmul binary64 (fdiv binary64 1 8) 100)
                       (fmul binary64 (fdiv binary64 1 6) (fdiv binary64 100 8))
   \<and> \<bar>fp_left (getFlightPosition binary64 (GanttView binary64 utc_zone (window_2025 6))
        (Date_UTC 20089 7 0 0 0) arrival) - 1458 / 100\<bar> < 1 / 200
   \<and> fp_left (getFlightPosition exact (GanttView exact utc_zone (window_2025 6))
        (Date_UTC 20089 7 0 0 0) arrival) = 1 / 8 * 100 + 1 / 6 * (100 / 8)
   \<and> \<bar>(1 / 8 * 100 + 1 / 6 * (100 / 8) :: rat) - 1458 / 100\<bar> < 1 / 200"
proof -
  let ?w = "GanttView binary64 utc_zone (window_2025 6)"
  let ?d = "Date_UTC 20089 7 0 0 0"
  have w: "?w = \<lparr>startDate = 1735689600000, endDate = 1735862399999, timeView = 6,
      numDays = 2, dayStart = 1735689600000, dayEnd = 1735862399999,
      totalHoursInRange = 48, numChunks = 8\<rparr>"
    by (rule GanttView_window_2025_doubles)
  have h: "hoursFrom binary64 1735689600000 ?d = 7" by code_simp
  have q: "\<lfloor>fdiv binary64 7 6\<rfloor> = 1" by code_simp
  have a: "fmul binary64 (fdiv binary64 1 8) 100 = 25 / 2" by code_simp
  have b: "fmul binary64 (fdiv binary64 1 6) (fdiv binary64 100 8)
             = 2345624805922133 / 1125899906842624"
    by code_simp
  have l: "fadd binary64 (25 / 2) (2345624805922133 / 1125899906842624)
             = 4104843410363733 / 281474976710656"
    by code_simp
  have pos: "getFlightPosition binary64 ?w ?d arrival =
     \<lparr>fp_left = 4104843410363733 / 281474976710656,
      fp_width = max (1 / 2)
          (fmul binary64 (fdiv binary64 (fsub binary64 (hoursFrom binary64 1735689600000 arrival) 7) 6)
                  (fdiv binary64 100 8)),
      fp_visible = True, fp_chunkIndex = 1\<rparr>"
    by (subst getFlightPosition_shown) (simp_all add: w h q a b l)
  have e: "getFlightPosition exact (GanttView exact utc_zone (window_2025 6)) ?d arrival =
     \<lparr>fp_left = 175 / 12,
      fp_width = max (1 / 2) (fmul exact (fdiv exact (fsub exact (hoursFrom exact 1735689600000 arrival) 7) 6)
                  (fdiv exact 100 8)),
      fp_visible = True, fp_chunkIndex = 1\<rparr>"
    by (subst getFlightPosition_shown)
       (simp_all add: GanttView_window_2025_exact hoursFrom_def fadd_def fsub_def fmul_def fdiv_def
          exact_def Date_UTC_def msPerDay_def)
  show ?thesis
    unfolding pos e by (simp add: w h a b l js_rem_def)
qed

lemma hours_exact:
  "fdiv exact (fsub exact (of_int t) (of_int s)) (of_int (1000 * 60 * 60)) = hoursBetween s t"
  by (simp add: exact_arith hoursBetween_def)

lemma getFlightPosition_hidden:
  assumes "hoursBetween (dayStart w) departure < 0
           \<or> of_int (totalHoursInRange w) \<le> hoursBetween (dayStart w) departure"
  shows "getFlightPosition exact w departure arrival =
           \<lparr>fp_left = 0, fp_width = 0, fp_visible = False, fp_chunkIndex = - 1\<rparr>"
  using assms unfolding getFlightPosition_def hours_exact by (auto simp: Let_def)


text \<open>
  Claim C3. In any window, a flight whose departure lies before \<open>dayStart\<close> or
  \<open>totalHoursInRange\<close> hours or more after it gets \<open>visible = false\<close>, left 0,
  width 0 and chunk index -1, wherever its arrival lies; the result is a value, not
  an error. The witness is a flight that departs an hour before the window and lands
  inside it.
\<close>

theorem getFlightPosition_outside:
  assumes "hoursBetween (dayStart w) departure < 0
           \<or> of_int (totalHoursInRange w) \<le> hoursBetween (dayStart w) departure"
  shows "getFlightPosition exact w departure arrival =
           \<lparr>fp_left = 0, fp_width = 0, fp_visible = False, fp_chunkIndex = - 1\<rparr>"
  using assms by (rule getFlightPosition_hidden)

theorem getFlightPosition_outside_witness:
  "dayStart (GanttView exact utc_zone (window_2025 24)) \<le> Date_UTC 20089 2 0 0 0
   \<and> Date_UTC 20089 2 0 0 0 \<le> dayEnd (GanttView exact utc_zone (window_2025 24))
   \<and> getFlightPosition exact (GanttView exact utc_zone (window_2025 24))
        (Date_UTC 20088 23 0 0 0) (Date_UTC 20089 2 0 0 0) =
      \<lparr>fp_left = 0, fp_width = 0, fp_visible = False, fp_chunkIndex = - 1\<rparr>"
  using getFlightPosition_outside [of "GanttView exact utc_zone (window_2025 24)"
      "Date_UTC 20088 23 0 0 0" "Date_UTC 20089 2 0 0 0"]
  by (simp add: GanttView_window_2025_exact hoursBetween_def Date_UTC_def msPerDay_def)



section \<open>The window across a clock change\<close>

text \<open>
  The pickers build their instants from UTC fields, and the window calculator counts
  the days between them with \<^verbatim>\<open>differenceInDays\<close>, which compares local fields. In
  New York the local time of 2025-03-09T00:00Z is 19:00 on the 8th, and the local
  time of 2025-03-10T23:59:59.999Z is 19:59:59.999 on the 10th, an hour further on
  the clock because the clocks went forward in between: two full local days lie
  between the two, and the calculator counts three days for a window of two.
\<close>

lemma dst_window_eval:
  "dst_window = \<lparr>startDate = 1741478400000, endDate = 1741651199999, timeView = 24\<rparr>"
  by (simp add: dst_window_def march_state_eval selectStartDate_def selectEndDate_def addDays_def
      LocalTime_def UTC_def new_york_2025_def Date_UTC_def msPerDay_def Let_def)

lemma GanttView_dst_window:
  "GanttView binary64 new_york_2025 \<lparr>startDate = 1741478400000, endDate = 1741651199999, timeView = 24\<rparr> =
     \<lparr>startDate = 1741478400000, endDate = 1741651199999, timeView = 24,
      numDays = 3, dayStart = 1741478400000, dayEnd = 1741651199999,
      totalHoursInRange = 72, numChunks = 3\<rparr>"
  by code_simp

text \<open>
  Claim C4 at the window 2025-03-09 to 2025-03-10, picked in New York, in the 24-hour
  view. The state holds the UTC midnight of the start date and the UTC 23:59:59.999
  of the end date, and the inclusive count of days is 2; the calculator yields
  \<open>numDays = 3\<close>, \<open>totalHoursInRange = 72\<close> and \<open>numChunks = 3\<close>. In a browser whose
  zone is UTC it yields \<open>numDays = 2\<close> for the same state.
\<close>

theorem window_across_clock_change:
  "startDate dst_window = Date_UTC 20156 0 0 0 0
   \<and> endDate dst_window = Date_UTC 20157 23 59 59 999
   \<and> utcDay (endDate dst_window) - utcDay (startDate dst_window) + 1 = 2
   \<and> numDays (GanttView binary64 new_york_2025 dst_window) = 3
   \<and> totalHoursInRange (GanttView binary64 new_york_2025 dst_window) = 72
   \<and> numChunks (GanttView binary64 new_york_2025 dst_window) = 3
   \<and> numDays (GanttView binary64 utc_zone dst_window) = 2"
proof -
  have "GanttView binary64 utc_zone \<lparr>startDate = 1741478400000, endDate = 1741651199999, timeView = 24\<rparr> =
     \<lparr>startDate = 1741478400000, endDate = 1741651199999, timeView = 24,
      numDays = 2, dayStart = 1741478400000, dayEnd = 1741651199999,
      totalHoursInRange = 48, numChunks = 2\<rparr>"
    by code_simp
  then show ?thesis
    by (simp add: dst_window_eval GanttView_dst_window Date_UTC_def utcDay_def msPerDay_def)
qed

text \<open>
  Claim C2 at the same window. A flight departing at \<open>dayEnd\<close>, the last millisecond
  of 2025-03-10 UTC, is visible, but its chunk is 1, not \<open>numChunks - 1 = 2\<close>: the
  third chunk of the timeline lies after \<open>dayEnd\<close>.
\<close>

theorem last_instant_across_clock_change:
  "dayEnd (GanttView binary64 new_york_2025 dst_window) = Date_UTC 20157 23 59 59 999
   \<and> fp_visible (getFlightPosition binary64 (GanttView binary64 new_york_2025 dst_window)
         (dayEnd (GanttView binary64 new_york_2025 dst_window)) arrival)
   \<and> numChunks (GanttView binary64 new_york_2025 dst_window) - 1 = 2
   \<and> fp_chunkIndex (getFlightPosition binary64 (GanttView binary64 new_york_2025 dst_window)
         (dayEnd (GanttView binary64 new_york_2025 dst_window)) arrival) = 1"
proof -
  have h: "hoursFrom binary64 1741478400000 1741651199999 = 6755399401961997 / 140737488355328"
    by code_simp
  have q: "\<lfloor>fdiv binary64 (6755399401961997 / 140737488355328) 24\<rfloor> = 1"
    by code_simp
  let ?w = "\<lparr>startDate = 1741478400000, endDate = 1741651199999, timeView = 24,
            numDays = 3, dayStart = 1741478400000, dayEnd = 1741651199999,
            totalHoursInRange = 72, numChunks = 3\<rparr>"
  have tv: "0 < timeView ?w"
    and lo: "0 \<le> hoursFrom binary64 (dayStart ?w) 1741651199999"
    and hi: "hoursFrom binary64 (dayStart ?w) 1741651199999 < of_int (totalHoursInRange ?w)"
    by (simp_all add: h)
  have "fp_visible (getFlightPosition binary64 ?w 1741651199999 arrival)"
    and "fp_chunkIndex (getFlightPosition binary64 ?w 1741651199999 arrival) = 1"
    by (simp_all add: getFlightPosition_shown [OF tv lo hi] h q)
  then show ?thesis
    by (simp add: dst_window_eval GanttView_dst_window Date_UTC_def msPerDay_def)
qed

section \<open>The separator generator\<close>

lemma hourSeparatorLoop_from_one:
  "1 \<le> h \<Longrightarrow> hourSeparatorLoop R w c h acc = acc @ map (separatorAt R w c) [h..timeView w]"
proof (induction R w c h acc rule: hourSeparatorLoop.induct)
  case (1 R w c h acc)
  show ?case
  proof (cases "h \<le> timeView w")
    case True
    with 1 show ?thesis
      by (subst hourSeparatorLoop.simps) (simp add: Let_def upto_rec1 [of h] separatorAt_def)
  next
    case False
    then show ?thesis
      by (subst hourSeparatorLoop.simps) simp
  qed
qed

lemma hourSeparatorLoop_chunk:
  assumes "0 \<le> timeView w" "0 \<le> c"
  shows "hourSeparatorLoop R w c 0 acc = acc @ map (separatorAt R w c) (boundaryHours (timeView w) c)"
proof (cases "c = 0")
  case True
  from assms(1) have "hourSeparatorLoop R w c 0 acc
      = hourSeparatorLoop R w c 1 (acc @ [separatorAt R w c 0])"
    using True by (subst hourSeparatorLoop.simps) (simp add: Let_def separatorAt_def)
  then show ?thesis
    using True assms(1) by (simp add: hourSeparatorLoop_from_one boundaryHours_def upto_rec1 [of 0])
next
  case False
  with assms have "hourSeparatorLoop R w c 0 acc = hourSeparatorLoop R w c 1 acc"
    by (subst hourSeparatorLoop.simps) (simp add: Let_def)
  then show ?thesis
    using False by (simp add: hourSeparatorLoop_from_one boundaryHours_def)
qed

lemma chunkSeparatorLoop_eq:
  "0 \<le> timeView w \<Longrightarrow> 0 \<le> c \<Longrightarrow> chunkSeparatorLoop R w c acc
     = acc @ concat (map (\<lambda>c. map (separatorAt R w c) (boundaryHours (timeView w) c)) [c..numChunks w - 1])"
proof (induction R w c acc rule: chunkSeparatorLoop.induct)
  case (1 R w c acc)
  show ?case
  proof (cases "c < numChunks w")
    case True
    with 1 show ?thesis
      by (subst chunkSeparatorLoop.simps)
         (simp add: hourSeparatorLoop_chunk upto_rec1 [of c])
  next
    case False
    then show ?thesis
      by (subst chunkSeparatorLoop.simps) simp
  qed
qed

lemma generateHourSeparators_eq:
  "0 \<le> timeView w \<Longrightarrow> generateHourSeparators R w
     = concat (map (\<lambda>c. map (separatorAt R w c) (boundaryHours (timeView w) c)) [0..numChunks w - 1])"
  by (simp add: generateHourSeparators_def chunkSeparatorLoop_eq)

lemma separatorPosition_exact:
  "separatorPosition exact w c h
     = of_int c / of_int (numChunks w) * 100 + of_int h / of_int (timeView w) * (100 / of_int (numChunks w))"
  by (simp add: separatorPosition_def exact_arith Let_def)

lemma separatorPosition_linear:
  "timeView w \<noteq> 0 \<Longrightarrow> numChunks w \<noteq> 0 \<Longrightarrow> separatorPosition exact w c h
     = of_int (c * timeView w + h) * 100 / (of_int (numChunks w) * of_int (timeView w))"
  by (simp add: separatorPosition_exact field_simps)

lemma map_shift_upto: "map (\<lambda>h. a + h) [i..j] = [a + i..a + j]"
proof (induction i j rule: upto.induct)
  case (1 i j)
  show ?case
  proof (cases "i \<le> j")
    case True
    with 1 show ?thesis
      by (simp add: upto_rec1 [of i j] upto_rec1 [of "a + i" "a + j"] add.assoc)
  next
    case False
    then show ?thesis by simp
  qed
qed

lemma map_add_zero: "map ((+) 0) (xs :: int list) = xs"
  by (induction xs) simp_all

lemma boundaries_flat:
  assumes tv: "1 \<le> tv"
  shows "0 \<le> m \<Longrightarrow> concat (map (\<lambda>c. map (\<lambda>h. c * tv + h) (boundaryHours tv c)) [0..m]) = [0..(m + 1) * tv]"
proof (induction m rule: int_ge_induct)
  case base
  then show ?case by (simp add: boundaryHours_def map_add_zero)
next
  case (step m)
  have "[0..m + 1] = [0..m] @ [m + 1]"
    using step.hyps by (simp add: upto_rec2)
  moreover have "map (\<lambda>h. (m + 1) * tv + h) (boundaryHours tv (m + 1)) = [(m + 1) * tv + 1..(m + 1) * tv + tv]"
    using step.hyps by (simp add: boundaryHours_def map_shift_upto)
  moreover have "[0..(m + 1 + 1) * tv] = [0..(m + 1) * tv] @ [(m + 1) * tv + 1..(m + 1) * tv + tv]"
  proof -
    have "0 \<le> (m + 1) * tv" using step.hyps tv by simp
    moreover have "(m + 1) * tv \<le> (m + 1 + 1) * tv" using tv by (simp add: algebra_simps)
    ultimately have "[0..(m + 1 + 1) * tv] = [0..(m + 1) * tv] @ [(m + 1) * tv + 1..(m + 1 + 1) * tv]"
      by (rule upto_split2)
    then show ?thesis by (simp add: algebra_simps)
  qed
  ultimately show ?case using step.IH by simp
qed

lemma last_separator:
  assumes n: "1 \<le> numChunks w" and tv: "1 \<le> timeView w"
  shows "last (generateHourSeparators R w) = separatorAt R w (numChunks w - 1) (timeView w)"
proof -
  have chunks: "[0..numChunks w - 1] = [0..numChunks w - 1 - 1] @ [numChunks w - 1]"
    using n by (simp add: upto_rec2)
  have hours: "boundaryHours (timeView w) c \<noteq> []" "last (boundaryHours (timeView w) c) = timeView w" for c
    using tv by (simp_all add: boundaryHours_def upto_rec2)
  have "generateHourSeparators R w
      = concat (map (\<lambda>c. map (separatorAt R w c) (boundaryHours (timeView w) c)) [0..numChunks w - 1 - 1])
        @ map (separatorAt R w (numChunks w - 1)) (boundaryHours (timeView w) (numChunks w - 1))"
    using tv by (subst generateHourSeparators_eq, simp, subst chunks, simp)
  then show ?thesis
    by (simp add: hours last_map)
qed

text \<open>
  Rounded arithmetic on numbers that are not negative: how the distance from the
  exact value grows with each operation.
\<close>

lemma near_refl: "near 0 x x"
  by (simp add: near_def)

lemma near_weaken:
  assumes "near j x y" "j \<le> k" "0 \<le> x"
  shows "near k x y"
proof -
  have "(1 - 1 / 2 ^ 53 :: rat) ^ k \<le> (1 - 1 / 2 ^ 53) ^ j"
    using assms(2) by (intro power_decreasing) simp_all
  then have "x * (1 - 1 / 2 ^ 53) ^ k \<le> x * (1 - 1 / 2 ^ 53) ^ j"
    using assms(3) by (rule mult_left_mono)
  moreover have "(1 + 1 / 2 ^ 53 :: rat) ^ j \<le> (1 + 1 / 2 ^ 53) ^ k"
    using assms(2) by (intro power_increasing) simp_all
  then have "x * (1 + 1 / 2 ^ 53) ^ j \<le> x * (1 + 1 / 2 ^ 53) ^ k"
    using assms(3) by (rule mult_left_mono)
  ultimately show ?thesis using assms(1) unfolding near_def by linarith
qed

lemma near_add:
  assumes "near k x y" "near k x' y'"
  shows "near k (x + x') (y + y')"
  using assms unfolding near_def by (simp add: distrib_right add_mono)

lemma near_mult:
  assumes "near j x y" "near k x' y'" "0 \<le> x" "0 \<le> x'"
  shows "near (j + k) (x * x') (y * y')"
proof -
  let ?l = "1 - 1 / 2 ^ 53 :: rat" and ?u = "1 + 1 / 2 ^ 53 :: rat"
  have l: "0 \<le> ?l ^ j" "0 \<le> ?l ^ k" by simp_all
  from assms have b: "x * ?l ^ j \<le> y" "y \<le> x * ?u ^ j" "x' * ?l ^ k \<le> y'" "y' \<le> x' * ?u ^ k"
    by (simp_all add: near_def)
  have y: "0 \<le> y" "0 \<le> y'"
    using b(1,3) assms(3,4) l mult_nonneg_nonneg [of x "?l ^ j"] mult_nonneg_nonneg [of x' "?l ^ k"]
    by linarith+
  have "(x * ?l ^ j) * (x' * ?l ^ k) \<le> y * y'"
    using b(1,3) assms(3,4) l y by (intro mult_mono) simp_all
  moreover have "y * y' \<le> (x * ?u ^ j) * (x' * ?u ^ k)"
    using b(2,4) y assms(3,4) by (intro mult_mono) simp_all
  ultimately show ?thesis
    by (simp add: near_def power_add algebra_simps)
qed

lemma near_round:
  assumes R: "accurate R" and w: "near k x y" and k: "k \<le> 4"
      and x: "x = 0 \<or> 1 / 2 ^ 50 \<le> x"
  shows "near (Suc k) x (R y)"
proof (cases "x = 0")
  case True
  with w have "y = 0" by (simp add: near_def)
  with True R show ?thesis by (simp add: near_def accurate_def)
next
  case False
  with x have xb: "1 / 2 ^ 50 \<le> x" by simp
  then have x0: "0 \<le> x" by (rule order_trans [rotated]) simp
  let ?l = "1 - 1 / 2 ^ 53 :: rat" and ?u = "1 + 1 / 2 ^ 53 :: rat"
  from w have b: "x * ?l ^ k \<le> y" "y \<le> x * ?u ^ k" by (simp_all add: near_def)
  have "?l ^ 4 \<le> ?l ^ k" using k by (intro power_decreasing) simp_all
  moreover have "(1 / 2 :: rat) \<le> (9007199254740991 / 9007199254740992) ^ 4"
    by (simp add: power4_eq_xxxx)
  then have "(1 / 2 :: rat) \<le> ?l ^ 4" by simp
  ultimately have half: "1 / 2 \<le> ?l ^ k" by linarith
  have "(1 / 2 ^ 50) * (1 / 2) \<le> x * ?l ^ k"
    using xb half by (intro mult_mono) simp_all
  with b(1) have yb: "1 / 2 ^ 51 \<le> y" by simp
  then have y0: "0 \<le> y" by (rule order_trans [rotated]) simp
  have "(1 :: rat) / 2 ^ 1022 \<le> 1 / 2 ^ 51"
    by (intro divide_left_mono power_increasing) simp_all
  with yb y0 have "1 / 2 ^ 1022 \<le> \<bar>y\<bar>" by linarith
  with R have "\<bar>R y - y\<bar> \<le> \<bar>y\<bar> / 2 ^ 53" by (simp add: accurate_def)
  moreover define e where "e = y / 2 ^ 53"
  ultimately have d: "\<bar>R y - y\<bar> \<le> e" using y0 by simp
  have "y * ?l = y - e" "y * ?u = y + e"
    by (simp_all add: e_def algebra_simps)
  with d have r: "y * ?l \<le> R y" "R y \<le> y * ?u"
    by (simp_all only: abs_le_iff) linarith+
  have "x * ?l ^ Suc k = (x * ?l ^ k) * ?l" by simp
  also have "\<dots> \<le> y * ?l" using b(1) by (intro mult_right_mono) simp_all
  finally have lo: "x * ?l ^ Suc k \<le> R y" using r(1) by linarith
  have "y * ?u \<le> (x * ?u ^ k) * ?u" using b(2) by (intro mult_right_mono) simp_all
  also have "\<dots> = x * ?u ^ Suc k" by simp
  finally have "R y \<le> x * ?u ^ Suc k" using r(2) by linarith
  with lo show ?thesis by (simp only: near_def simp_thms)
qed

lemma ratio_zero_or_small:
  assumes "0 \<le> i" "1 \<le> m" "m \<le> 2 ^ 45" "x = of_int i / of_int m"
  shows "x = 0 \<or> (1::rat) / 2 ^ 50 \<le> x"
proof (cases "i = 0")
  case True
  with assms(4) show ?thesis by simp
next
  case False
  with assms(1) have i: "1 \<le> i" by simp
  have "(of_int m :: rat) \<le> of_int (2 ^ 45)"
    using assms(3) by (simp only: of_int_le_iff)
  then have m: "(of_int m :: rat) \<le> 2 ^ 50" by simp
  have "(1::rat) / 2 ^ 50 \<le> of_int i / of_int m"
    using i assms(2) m by (intro frac_le) simp_all
  with assms(4) show ?thesis by simp
qed

lemma separatorPosition_near:
  assumes R: "accurate R" and n: "1 \<le> numChunks w" "numChunks w \<le> 2 ^ 40"
      and tv: "timeView w \<in> {6, 12, 24}" and c: "0 \<le> c" and h: "0 \<le> h"
  shows "near 4 (of_int (c * timeView w + h) * 100 / (of_int (numChunks w) * of_int (timeView w)))
           (separatorPosition R w c h)"
proof -
  define n t where "n = numChunks w" and "t = timeView w"
  have n1: "1 \<le> n" and n2: "n \<le> 2 ^ 40" using n by (simp_all add: n_def)
  have t1: "1 \<le> t" and t2: "t \<le> 24" using tv by (auto simp add: t_def)
  have n3: "n \<le> 2 ^ 45" using n2 by simp
  have t3: "t \<le> 2 ^ 45" using t2 by simp
  have "t * n \<le> 24 * n" using t2 n1 by (intro mult_right_mono) simp_all
  with n2 have tn: "t * n \<le> 2 ^ 45" by simp
  have tn1: "1 \<le> t * n" using t1 n1 by (metis mult_mono' mult_1 zero_le_one)
  have rn: "0 < rat_of_int n" and rt: "0 < rat_of_int t" using n1 t1 by simp_all
  have rc: "0 \<le> rat_of_int c" and rh: "0 \<le> rat_of_int h" using c h by simp_all
  have "(rat_of_int c / of_int n :: rat) = 0 \<or> 1 / 2 ^ 50 \<le> (of_int c / of_int n :: rat)"
    by (rule ratio_zero_or_small [OF c n1 n3 refl])
  then have "near (Suc 0) (of_int c / of_int n) (R (of_int c / of_int n))"
    by (rule near_round [OF R near_refl, rotated]) simp
  then have a: "near 1 (of_int c / of_int n) (fdiv R (of_int c) (of_int n))"
    by (simp add: fdiv_def)
  have "near (1 + 0) (of_int c / of_int n * 100) (fdiv R (of_int c) (of_int n) * 100)"
    using a near_refl [of 100] rc rn by (intro near_mult) simp_all
  then have "near 1 (of_int c / of_int n * 100) (fdiv R (of_int c) (of_int n) * 100)" by simp
  moreover have "rat_of_int c / of_int n * 100 = 0 \<or> 1 / 2 ^ 50 \<le> rat_of_int c / of_int n * 100"
    using c by (intro ratio_zero_or_small [of "c * 100", OF _ n1 n3]) simp_all
  ultimately have "near (Suc 1) (of_int c / of_int n * 100) (R (fdiv R (of_int c) (of_int n) * 100))"
    by (intro near_round [OF R]) simp_all
  then have b: "near 3 (of_int c / of_int n * 100) (fmul R (fdiv R (of_int c) (of_int n)) 100)"
    using rc rn by (intro near_weaken [of 2 _ _ 3]) (simp_all add: fmul_def numeral_2_eq_2)
  have "(rat_of_int h / of_int t :: rat) = 0 \<or> 1 / 2 ^ 50 \<le> (of_int h / of_int t :: rat)"
    by (rule ratio_zero_or_small [OF h t1 t3 refl])
  then have "near (Suc 0) (of_int h / of_int t) (R (of_int h / of_int t))"
    by (rule near_round [OF R near_refl, rotated]) simp
  then have d: "near 1 (of_int h / of_int t) (fdiv R (of_int h) (of_int t))"
    by (simp add: fdiv_def)
  have "(100 / of_int n :: rat) = 0 \<or> 1 / 2 ^ 50 \<le> (100 / of_int n :: rat)"
    by (rule ratio_zero_or_small [of 100, OF _ n1 n3], simp_all)
  then have "near (Suc 0) (100 / of_int n) (R (100 / of_int n))"
    by (rule near_round [OF R near_refl, rotated]) simp
  then have e: "near 1 (100 / of_int n) (fdiv R 100 (of_int n))"
    by (simp add: fdiv_def)
  have "near (1 + 1) (of_int h / of_int t * (100 / of_int n))
          (fdiv R (of_int h) (of_int t) * fdiv R 100 (of_int n))"
    using d e rh rt rn by (intro near_mult) simp_all
  then have "near 2 (of_int h / of_int t * (100 / of_int n))
          (fdiv R (of_int h) (of_int t) * fdiv R 100 (of_int n))" by (simp add: numeral_2_eq_2)
  moreover have "rat_of_int h / of_int t * (100 / of_int n) = 0
      \<or> 1 / 2 ^ 50 \<le> rat_of_int h / of_int t * (100 / of_int n)"
    using h by (intro ratio_zero_or_small [of "h * 100", OF _ tn1 tn]) simp_all
  ultimately have "near (Suc 2) (of_int h / of_int t * (100 / of_int n))
      (R (fdiv R (of_int h) (of_int t) * fdiv R 100 (of_int n)))"
    by (intro near_round [OF R]) simp_all
  then have f: "near 3 (of_int h / of_int t * (100 / of_int n))
      (fmul R (fdiv R (of_int h) (of_int t)) (fdiv R 100 (of_int n)))"
    by (simp add: fmul_def numeral_3_eq_3)
  let ?x = "rat_of_int c / of_int n * 100 + of_int h / of_int t * (100 / of_int n)"
  have x: "?x = of_int ((c * t + h) * 100) / of_int (t * n)"
    using rn rt by (simp add: field_simps)
  have "near 3 ?x (fmul R (fdiv R (of_int c) (of_int n)) 100
      + fmul R (fdiv R (of_int h) (of_int t)) (fdiv R 100 (of_int n)))"
    using b f by (rule near_add)
  moreover have "?x = 0 \<or> 1 / 2 ^ 50 \<le> ?x"
    using c h t1 by (intro ratio_zero_or_small [OF _ tn1 tn x]) simp_all
  ultimately have "near (Suc 3) ?x (R (fmul R (fdiv R (of_int c) (of_int n)) 100
      + fmul R (fdiv R (of_int h) (of_int t)) (fdiv R 100 (of_int n))))"
    by (intro near_round [OF R]) simp_all
  then have "near 4 ?x (separatorPosition R w c h)"
    by (simp add: separatorPosition_def fadd_def Let_def n_def t_def eval_nat_numeral)
  moreover have "?x = of_int (c * timeView w + h) * 100 / (of_int (numChunks w) * of_int (timeView w))"
    using rn rt by (simp add: field_simps n_def t_def)
  ultimately show ?thesis by simp
qed

lemma near_bounds:
  assumes "near 4 x y" "0 \<le> x"
  shows "x * (1 - 4 / 9007199254740992) \<le> y \<and> y \<le> x * (1 + 5 / 9007199254740992)"
proof -
  have "(9007199254740988 / 9007199254740992 :: rat) \<le> (9007199254740991 / 9007199254740992) ^ 4"
    by (simp add: power4_eq_xxxx)
  then have "(1 - 4 / 9007199254740992 :: rat) \<le> (1 - 1 / 2 ^ 53) ^ 4" by simp
  then have "x * (1 - 4 / 9007199254740992) \<le> x * (1 - 1 / 2 ^ 53) ^ 4"
    using assms(2) by (rule mult_left_mono)
  moreover have "((9007199254740993 / 9007199254740992) ^ 4 :: rat) \<le> 9007199254740997 / 9007199254740992"
    by (simp add: power4_eq_xxxx)
  then have "((1 + 1 / 2 ^ 53) ^ 4 :: rat) \<le> 1 + 5 / 9007199254740992" by simp
  then have "x * (1 + 1 / 2 ^ 53) ^ 4 \<le> x * (1 + 5 / 9007199254740992)"
    using assms(2) by (rule mult_left_mono)
  ultimately show ?thesis using assms(1) unfolding near_def by linarith
qed

lemma rounded_gap:
  assumes k: "0 \<le> k" "k < k'" "k \<le> 2 ^ 45" and D: "0 < (D::rat)"
  shows "of_int k * 100 / D * (1 + 5 / 9007199254740992)
       < of_int k' * 100 / D * (1 - 4 / 9007199254740992)"
proof -
  define a :: rat where "a = of_int k"
  have "rat_of_int k \<le> of_int (2 ^ 45)" using k(3) by (simp only: of_int_le_iff)
  then have a: "0 \<le> a" "a \<le> 35184372088832" using k(1) by (simp_all add: a_def)
  have "rat_of_int (k + 1) \<le> of_int k'" using k(2) by (simp only: of_int_le_iff)
  then have a': "a + 1 \<le> of_int k'" by (simp add: a_def)
  have "a * (1 + 5 / 9007199254740992) < (a + 1) * (1 - 4 / 9007199254740992)"
    using a by (simp add: algebra_simps)
  also have "\<dots> \<le> of_int k' * (1 - 4 / 9007199254740992)"
    using a' by (intro mult_right_mono) simp_all
  finally have "a * (1 + 5 / 9007199254740992) * (100 / D) < of_int k' * (1 - 4 / 9007199254740992) * (100 / D)"
    using D by (intro mult_strict_right_mono) simp_all
  then show ?thesis by (simp add: a_def mult_ac)
qed

lemma first_separator:
  assumes n: "1 \<le> numChunks w" and tv: "1 \<le> timeView w"
  shows "generateHourSeparators R w \<noteq> [] \<and> hd (generateHourSeparators R w) = separatorAt R w 0 0"
proof -
  have chunks: "[0..numChunks w - 1] = 0 # [1..numChunks w - 1]"
    using n by (simp add: upto_rec1)
  have hours: "boundaryHours (timeView w) 0 = 0 # [1..timeView w]"
    using tv by (simp add: boundaryHours_def upto_rec1)
  have "0 \<le> timeView w" using tv by simp
  then show ?thesis
    by (simp add: generateHourSeparators_eq chunks hours)
qed

lemma separatorPosition_origin: "R 0 = 0 \<Longrightarrow> separatorPosition R w 0 0 = 0"
  by (simp add: separatorPosition_def fadd_def fmul_def fdiv_def Let_def)

lemma GanttView_single_day_doubles:
  "GanttView binary64 utc_zone (single_day 12) =
     \<lparr>startDate = 1735689600000, endDate = 1735775999999, timeView = 12,
      numDays = 1, dayStart = 1735689600000, dayEnd = 1735775999999,
      totalHoursInRange = 24, numChunks = 2\<rparr>"
  by code_simp

text \<open>
  Claim C5. With at least one chunk and a chunk size of 6, 12 or 24 hours, the
  separator generator emits, chunk after chunk, one separator per hour boundary
  \<open>hour = 0, ..., timeView\<close> at position
  \<open>chunkIndex / numChunks * 100 + hour / timeView * (100 / numChunks)\<close>, except that
  the chunks after the first start at hour 1: their hour 0 is left out, and every
  other boundary, the last one \<open>hour = timeView\<close> included, is there. The position
  is the formula with every operation rounded as the code rounds it, for any
  rounding \<open>R\<close>. The witness is the 12-hour view of a single day, in doubles: 25
  separators, the second at the double 4.166666666666667.
\<close>

theorem generateHourSeparators_boundaries:
  assumes "1 \<le> numChunks w" and "timeView w \<in> {6, 12, 24}"
  shows "generateHourSeparators R w =
     concat (map (\<lambda>c. map (\<lambda>h. \<lparr>sep_position =
                                     fadd R (fmul R (fdiv R (of_int c) (of_int (numChunks w))) 100)
                                       (fmul R (fdiv R (of_int h) (of_int (timeView w)))
                                          (fdiv R 100 (of_int (numChunks w)))),
                                   sep_chunkIndex = c, sep_hour = h\<rparr>)
                            (if c = 0 then [0..timeView w] else [1..timeView w]))
                 [0..numChunks w - 1])"
proof -
  from assms(2) have "0 \<le> timeView w" by auto
  then show ?thesis
    by (simp add: generateHourSeparators_eq separatorAt_def [abs_def] separatorPosition_def Let_def
        boundaryHours_def [abs_def])
qed

lemma separator_doubles:
  "fadd binary64 (fmul binary64 (fdiv binary64 0 2) 100)
     (fmul binary64 (fdiv binary64 0 12) (fdiv binary64 100 2)) = 0"
  "fadd binary64 (fmul binary64 (fdiv binary64 0 2) 100)
     (fmul binary64 (fdiv binary64 1 12) (fdiv binary64 100 2)) = 2345624805922133 / 562949953421312"
  "fadd binary64 (fmul binary64 (fdiv binary64 0 2) 100)
     (fmul binary64 (fdiv binary64 2 12) (fdiv binary64 100 2)) = 2345624805922133 / 281474976710656"
  "fadd binary64 (fmul binary64 (fdiv binary64 1 2) 100)
     (fmul binary64 (fdiv binary64 1 12) (fdiv binary64 100 2)) = 7623280619246933 / 140737488355328"
  "fadd binary64 (fmul binary64 (fdiv binary64 1 2) 100)
     (fmul binary64 (fdiv binary64 12 12) (fdiv binary64 100 2)) = 100"
  by code_simp+

theorem generateHourSeparators_boundaries_witness:
  "map (\<lambda>s. (sep_chunkIndex s, sep_hour s))
       (generateHourSeparators binary64 (GanttView binary64 utc_zone (single_day 12))) =
     [(0, 0), (0, 1), (0, 2), (0, 3), (0, 4), (0, 5), (0, 6), (0, 7), (0, 8), (0, 9), (0, 10),
      (0, 11), (0, 12), (1, 1), (1, 2), (1, 3), (1, 4), (1, 5), (1, 6), (1, 7), (1, 8), (1, 9),
      (1, 10), (1, 11), (1, 12)]
   \<and> map sep_position
       (take 3 (generateHourSeparators binary64 (GanttView binary64 utc_zone (single_day 12)))) =
     [0, 2345624805922133 / 562949953421312, 2345624805922133 / 281474976710656]
   \<and> sep_position (generateHourSeparators binary64 (GanttView binary64 utc_zone (single_day 12)) ! 13)
     = 7623280619246933 / 140737488355328
   \<and> sep_position (generateHourSeparators binary64 (GanttView binary64 utc_zone (single_day 12)) ! 24)
     = 100"
  using generateHourSeparators_boundaries [of "GanttView binary64 utc_zone (single_day 12)" binary64]
  by (simp add: GanttView_single_day_doubles upto_rec1 separator_doubles cong: if_cong)

text \<open>
  Each position is within four roundings of \<open>100 * k / (numChunks * timeView)\<close>,
  where \<open>k = chunkIndex * timeView + hour\<close> counts the boundaries from the left.
  Neighbouring boundaries are much further apart than that, as long as there are
  not more than \<open>2 ^ 40\<close> chunks, so the rounded positions keep their order.
\<close>

lemma sorted_positions:
  assumes R: "accurate R" and n: "1 \<le> numChunks w" "numChunks w \<le> 2 ^ 40"
      and tv: "timeView w \<in> {6, 12, 24}"
  shows "sorted_wrt (<) (map sep_position (generateHourSeparators R w))"
proof -
  define n t where "n = numChunks w" and "t = timeView w"
  have n1: "1 \<le> n" and n2: "n \<le> 2 ^ 40" using n by (simp_all add: n_def)
  have t1: "1 \<le> t" and t2: "t \<le> 24" using tv by (auto simp add: t_def)
  have "n * t \<le> n * 24" using t2 n1 by (intro mult_left_mono) simp_all
  with n2 have nt: "n * t \<le> 2 ^ 45" by simp
  have D: "0 < rat_of_int n * of_int t" using n1 t1 by simp
  define pairs where "pairs = concat (map (\<lambda>c. map (Pair c) (boundaryHours t c)) [0..n - 1])"
  define P where "P = (\<lambda>(c, h). separatorPosition R w c h)"
  define key where "key = (\<lambda>(c, h). c * t + h)"
  define g where "g = (\<lambda>k. rat_of_int k * 100 / (of_int n * of_int t))"
  have ps: "map sep_position (generateHourSeparators R w) = map P pairs"
    using t1 by (simp add: generateHourSeparators_eq map_concat comp_def separatorAt_def
        pairs_def P_def n_def t_def)
  have "map key pairs = concat (map (\<lambda>c. map (\<lambda>h. c * t + h) (boundaryHours t c)) [0..n - 1])"
    by (simp add: pairs_def key_def map_concat comp_def)
  also have "\<dots> = [0..(n - 1 + 1) * t]"
    using n1 by (intro boundaries_flat [OF t1]) simp
  finally have keys: "map key pairs = [0..n * t]" by simp
  have range: "0 \<le> key x \<and> key x \<le> n * t" if "x \<in> set pairs" for x
  proof -
    from that have "key x \<in> set (map key pairs)" by simp
    then show ?thesis unfolding keys by simp
  qed
  have members: "0 \<le> fst x \<and> 0 \<le> snd x" if "x \<in> set pairs" for x
    using that by (auto simp add: pairs_def boundaryHours_def split: if_splits)
  have bounds: "g (key x) * (1 - 4 / 9007199254740992) \<le> P x
      \<and> P x \<le> g (key x) * (1 + 5 / 9007199254740992)" if "x \<in> set pairs" for x
  proof -
    obtain c h where x: "x = (c, h)" by (cases x)
    from members [OF that] x have c: "0 \<le> c" and h: "0 \<le> h" by simp_all
    have "near 4 (g (key x)) (P x)"
      using separatorPosition_near [OF R n tv c h] by (simp add: x g_def key_def P_def n_def t_def)
    moreover have "0 \<le> g (key x)"
      using range [OF that] D by (simp add: g_def)
    ultimately show ?thesis by (rule near_bounds)
  qed
  have "sorted_wrt (<) (map key pairs)"
    unfolding keys by (rule sorted_wrt_upto)
  then have "sorted_wrt (\<lambda>x y. key x < key y) pairs"
    by (simp only: sorted_wrt_map)
  moreover have "P x < P y" if "x \<in> set pairs" "y \<in> set pairs" "key x < key y" for x y
  proof -
    have "key x \<le> 2 ^ 45" using range [OF that(1)] nt by linarith
    with range [OF that(1)] that(3)
    have "g (key x) * (1 + 5 / 9007199254740992) < g (key y) * (1 - 4 / 9007199254740992)"
      unfolding g_def using D by (intro rounded_gap) simp_all
    with bounds [OF that(1)] bounds [OF that(2)] show ?thesis by linarith
  qed
  ultimately have "sorted_wrt (\<lambda>x y. P x < P y) pairs"
    by (rule sorted_wrt_mono_rel [rotated]) blast
  then show ?thesis
    by (simp only: ps sorted_wrt_map)
qed

lemma last_position_near:
  assumes R: "accurate R" and n: "1 \<le> numChunks w" "numChunks w \<le> 2 ^ 40"
      and tv: "timeView w \<in> {6, 12, 24}"
  shows "\<bar>last (map sep_position (generateHourSeparators R w)) - 100\<bar> \<le> 1 / 2 ^ 44"
proof -
  from tv have t1: "1 \<le> timeView w" by auto
  have ne: "generateHourSeparators R w \<noteq> []"
    using first_separator [OF n(1) t1] by simp
  have "near 4 (of_int ((numChunks w - 1) * timeView w + timeView w) * 100
      / (of_int (numChunks w) * of_int (timeView w)))
      (separatorPosition R w (numChunks w - 1) (timeView w))"
    using n(1) t1 by (intro separatorPosition_near [OF R n tv]) simp_all
  moreover have "rat_of_int ((numChunks w - 1) * timeView w + timeView w) * 100
      / (of_int (numChunks w) * of_int (timeView w)) = 100"
    using n(1) t1 by (simp add: algebra_simps)
  ultimately have "near 4 100 (separatorPosition R w (numChunks w - 1) (timeView w))"
    by simp
  then have "100 * (1 - 4 / 9007199254740992) \<le> separatorPosition R w (numChunks w - 1) (timeView w)
      \<and> separatorPosition R w (numChunks w - 1) (timeView w) \<le> 100 * (1 + 5 / 9007199254740992)"
    by (rule near_bounds) simp
  then have "separatorPosition R w (numChunks w - 1) (timeView w) - 100 \<le> 1 / 17592186044416
      \<and> - (separatorPosition R w (numChunks w - 1) (timeView w) - 100) \<le> 1 / 17592186044416"
    by simp
  then have "\<bar>separatorPosition R w (numChunks w - 1) (timeView w) - 100\<bar> \<le> 1 / 17592186044416"
    by (simp only: abs_le_iff)
  then have "\<bar>separatorPosition R w (numChunks w - 1) (timeView w) - 100\<bar> \<le> 1 / 2 ^ 44"
    by simp
  then show ?thesis
    by (simp add: last_map [OF ne] last_separator [OF n(1) t1] separatorAt_def)
qed

text \<open>
  With at least one and at most \<open>2 ^ 40\<close> chunks and a chunk size of 6, 12 or 24
  hours, the positions computed under an accurate rounding are strictly increasing
  and pairwise different, the first is 0, and the last is within \<open>1 / 2 ^ 44\<close> of
  100.
\<close>

lemma separator_positions_accurate:
  assumes "accurate R" and "1 \<le> numChunks w" and "numChunks w \<le> 2 ^ 40"
      and "timeView w \<in> {6, 12, 24}"
  shows "map sep_position (generateHourSeparators R w) \<noteq> []
         \<and> sorted_wrt (<) (map sep_position (generateHourSeparators R w))
         \<and> distinct (map sep_position (generateHourSeparators R w))
         \<and> hd (map sep_position (generateHourSeparators R w)) = 0
         \<and> \<bar>last (map sep_position (generateHourSeparators R w)) - 100\<bar> \<le> 1 / 2 ^ 44
         \<and> last (map sep_position (generateHourSeparators exact w)) = 100"
proof -
  from assms(4) have t1: "1 \<le> timeView w" by auto
  have first: "generateHourSeparators R w \<noteq> []"
      "hd (generateHourSeparators R w) = separatorAt R w 0 0"
    using first_separator [OF assms(2) t1] by simp_all
  have sorted: "sorted_wrt (<) (map sep_position (generateHourSeparators R w))"
    using assms by (rule sorted_positions)
  then have "distinct (map sep_position (generateHourSeparators R w))"
    by (simp add: strict_sorted_iff)
  moreover have "R 0 = 0" using assms(1) by (simp add: accurate_def)
  then have "hd (map sep_position (generateHourSeparators R w)) = 0"
    by (simp add: hd_map [OF first(1)] first(2) separatorAt_def separatorPosition_origin)
  moreover have "\<bar>last (map sep_position (generateHourSeparators R w)) - 100\<bar> \<le> 1 / 2 ^ 44"
    using assms by (rule last_position_near)
  moreover have "generateHourSeparators exact w \<noteq> []"
    using first_separator [OF assms(2) t1] by simp
  then have "last (map sep_position (generateHourSeparators exact w)) = 100"
    using assms(2) t1
    by (simp add: last_map last_separator separatorAt_def separatorPosition_linear algebra_simps)
  ultimately show ?thesis using sorted first(1) by simp
qed

text \<open>
  Claim C10, amended. With at least one and at most \<open>2 ^ 40\<close> chunks (no window of
  JavaScript dates has more) and a chunk size of 6, 12 or 24 hours, the separator
  positions the generator computes in doubles are strictly increasing and pairwise
  different, and the first is exactly 0. The last is within \<open>1 / 2 ^ 44\<close> of 100;
  in exact arithmetic it is 100.
\<close>

theorem separator_positions_rounded:
  assumes "1 \<le> numChunks w" and "numChunks w \<le> 2 ^ 40" and "timeView w \<in> {6, 12, 24}"
  shows "map sep_position (generateHourSeparators binary64 w) \<noteq> []
         \<and> sorted_wrt (<) (map sep_position (generateHourSeparators binary64 w))
         \<and> distinct (map sep_position (generateHourSeparators binary64 w))
         \<and> hd (map sep_position (generateHourSeparators binary64 w)) = 0
         \<and> \<bar>last (map sep_position (generateHourSeparators binary64 w)) - 100\<bar> \<le> 1 / 2 ^ 44
         \<and> last (map sep_position (generateHourSeparators exact w)) = 100"
  using accurate_binary64 assms by (rule separator_positions_accurate)

theorem separator_positions_rounded_witness:
  "map sep_position (generateHourSeparators binary64 (GanttView binary64 utc_zone (single_day 12))) \<noteq> []
   \<and> sorted_wrt (<)
       (map sep_position (generateHourSeparators binary64 (GanttView binary64 utc_zone (single_day 12))))
   \<and> distinct
       (map sep_position (generateHourSeparators binary64 (GanttView binary64 utc_zone (single_day 12))))
   \<and> hd (map sep_position (generateHourSeparators binary64 (GanttView binary64 utc_zone (single_day 12))))
       = 0
   \<and> \<bar>last (map sep_position
              (generateHourSeparators binary64 (GanttView binary64 utc_zone (single_day 12)))) - 100\<bar>
       \<le> 1 / 2 ^ 44
   \<and> last (map sep_position (generateHourSeparators exact (GanttView binary64 utc_zone (single_day 12))))
       = 100"
  using separator_positions_rounded [of "GanttView binary64 utc_zone (single_day 12)"]
  by (simp add: GanttView_single_day_doubles)

lemma div_11_12: "fdiv binary64 11 12 = 8256599316845909 / 9007199254740992"
  by code_simp

lemma mul_100: "fmul binary64 (8256599316845909 / 9007199254740992) 100 = 3225234108142933 / 35184372088832"
  by code_simp

lemma div_6_6: "fdiv binary64 6 6 = 1"
  by code_simp

lemma div_100_12: "fdiv binary64 100 12 = 4691249611844267 / 562949953421312"
  by code_simp

lemma mul_1: "fmul binary64 1 (4691249611844267 / 562949953421312) = 4691249611844267 / 562949953421312"
  by code_simp

lemma add_last: "fadd binary64 (3225234108142933 / 35184372088832) (4691249611844267 / 562949953421312)
   = 7036874417766399 / 70368744177664"
  by code_simp

lemma GanttView_default_six:
  "GanttView binary64 utc_zone default_six =
     \<lparr>startDate = 1735689600000, endDate = 1735862400000, timeView = 6,
      numDays = 3, dayStart = 1735689600000, dayEnd = 1735948799999,
      totalHoursInRange = 72, numChunks = 12\<rparr>"
  by code_simp

text \<open>
  Claim C10, as stated: the list of positions the generator produces ends at exactly
  100. The generator computes in doubles. In the default window of three days, seen
  in 6-hour chunks, there are 12 chunks and the last separator is at
  \<open>(11 / 12) * 100 + (6 / 6) * (100 / 12)\<close>: the quotient \<open>11 / 12\<close> rounds to
  0.9166666666666666, the product to 91.66666666666666, \<open>100 / 12\<close> to
  8.333333333333334, and the sum to 99.99999999999999, one unit in the last place
  below 100.
\<close>

theorem last_separator_rounded_counterexample:
  "last (map sep_position (generateHourSeparators binary64 (GanttView binary64 utc_zone default_six)))
     = 100 - 1 / 2 ^ 46
   \<and> last (map sep_position (generateHourSeparators binary64 (GanttView binary64 utc_zone default_six)))
     \<noteq> 100"
proof -
  let ?w = "GanttView binary64 utc_zone default_six"
  have n: "numChunks ?w = 12" and tv: "timeView ?w = 6"
    by (simp_all add: GanttView_default_six)
  have ne: "generateHourSeparators binary64 ?w \<noteq> []"
    by (simp add: generateHourSeparators_eq tv n boundaryHours_def upto_rec1)
  have "last (map sep_position (generateHourSeparators binary64 ?w))
      = sep_position (last (generateHourSeparators binary64 ?w))"
    using ne by (rule last_map)
  also have "\<dots> = separatorPosition binary64 ?w 11 6"
    by (simp add: last_separator n tv separatorAt_def)
  also have "\<dots> = 7036874417766399 / 70368744177664"
    by (simp add: separatorPosition_def n tv Let_def div_11_12 mul_100 div_6_6 div_100_12 mul_1
        add_last)
  finally have "last (map sep_position (generateHourSeparators binary64 ?w))
      = 7036874417766399 / 70368744177664" .
  then show ?thesis by simp
qed

section \<open>The label generator\<close>

lemma two_digits:
  assumes "0 \<le> v" "v < 100"
  shows "padStart 2 (CHR ''0'') (String_int v) = [digit_char (nat v div 10), digit_char (nat v mod 10)]"
proof (cases "v < 10")
  case True
  with assms have "nat v < 10" by simp
  with assms show ?thesis
    by (simp add: String_int_def String_nat.simps [of "nat v"] padStart_def digit_char_def)
next
  case False
  with assms have "nat v div 10 < 10" by simp
  with False assms show ?thesis
    by (simp add: String_int_def String_nat.simps [of "nat v"] String_nat.simps [of "nat v div 10"]
        padStart_def)
qed

lemma hourLabelLoop_unit:
  "labelInterval (timeView w) = 1 \<Longrightarrow>
   hourLabelLoop w c s h acc = acc @ map (labelAt c s 1) [h..timeView w - 1]"
proof (induction w c s h acc rule: hourLabelLoop.induct)
  case (1 w c s h acc)
  show ?case
  proof (cases "h < timeView w")
    case True
    with 1 show ?thesis
      by (subst hourLabelLoop.simps) (simp add: Let_def upto_rec1 [of h] labelAt_def)
  next
    case False
    then show ?thesis
      by (subst hourLabelLoop.simps) simp
  qed
qed

lemma hourLabelLoop_twelve:
  "timeView w = 12 \<Longrightarrow>
   hourLabelLoop w c s 0 acc = acc @ map (labelAt c s 2) [0, 2, 4, 6, 8, 10]"
  by (simp add: hourLabelLoop.simps labelInterval_def Let_def labelAt_def)

lemma hourLabelLoop_chunk:
  assumes "timeView w \<in> {6, 12, 24}"
  shows "hourLabelLoop w c s 0 acc
     = acc @ map (labelAt c s (labelInterval (timeView w))) (tickHours (timeView w))"
  using assms
  by (auto simp: hourLabelLoop_twelve hourLabelLoop_unit labelInterval_def tickHours_def)

lemma chunkLabelLoop_eq:
  "timeView w \<in> {6, 12, 24} \<Longrightarrow> chunkLabelLoop w c acc
     = acc @ concat (map (\<lambda>c. map (labelAt c (c * timeView w) (labelInterval (timeView w)))
                                 (tickHours (timeView w))) [c..numChunks w - 1])"
proof (induction w c acc rule: chunkLabelLoop.induct)
  case (1 w c acc)
  show ?case
  proof (cases "c < numChunks w")
    case True
    with 1 show ?thesis
      by (subst chunkLabelLoop.simps) (simp add: hourLabelLoop_chunk upto_rec1 [of c])
  next
    case False
    then show ?thesis
      by (subst chunkLabelLoop.simps) simp
  qed
qed

lemma tickHours_nonneg: "h \<in> set (tickHours tv) \<Longrightarrow> 0 \<le> h"
  by (auto simp: tickHours_def split: if_splits)

lemma labelAt_mod:
  assumes "0 \<le> a"
  shows "labelAt c a i 0 =
     \<lparr>tl_hour = a mod 24, tl_chunkIndex = c, tl_width = i,
      tl_label = [digit_char (nat (a mod 24) div 10), digit_char (nat (a mod 24) mod 10)] @ '':00''\<rparr>"
proof -
  have r: "js_rem_int a 24 = a mod 24"
    using assms by (simp add: js_rem_int_def sgn_if)
  have "0 \<le> a mod 24" "a mod 24 < 100" by simp_all
  then show ?thesis
    by (simp add: labelAt_def r two_digits)
qed

lemma labelAt_hourOfDay:
  assumes "0 \<le> c" "0 \<le> tv" "0 \<le> h"
  shows "labelAt c (c * tv) i h = hourOfDayLabel tv c i h"
proof -
  have "labelAt c (c * tv) i h = labelAt c (c * tv + h) i 0"
    by (simp add: labelAt_def)
  moreover have "0 \<le> c * tv + h" using assms by simp
  ultimately show ?thesis by (simp add: labelAt_mod hourOfDayLabel_def)
qed

lemma generateTimeLabels_eq:
  assumes tv: "timeView w \<in> {6, 12, 24}"
  shows "generateTimeLabels w
     = concat (map (\<lambda>c. map (hourOfDayLabel (timeView w) c (labelInterval (timeView w)))
                            (tickHours (timeView w))) [0..numChunks w - 1])"
proof -
  have tv0: "0 \<le> timeView w" using tv by auto
  have inner: "map (labelAt c (c * timeView w) (labelInterval (timeView w))) (tickHours (timeView w))
      = map (hourOfDayLabel (timeView w) c (labelInterval (timeView w))) (tickHours (timeView w))"
    if "c \<in> set [0..numChunks w - 1]" for c
  proof (rule map_cong [OF refl])
    fix h assume "h \<in> set (tickHours (timeView w))"
    then have "0 \<le> h" by (rule tickHours_nonneg)
    moreover from that have "0 \<le> c" by simp
    ultimately show "labelAt c (c * timeView w) (labelInterval (timeView w)) h
        = hourOfDayLabel (timeView w) c (labelInterval (timeView w)) h"
      using tv0 by (simp add: labelAt_hourOfDay)
  qed
  have "map (\<lambda>c. map (labelAt c (c * timeView w) (labelInterval (timeView w))) (tickHours (timeView w)))
               [0..numChunks w - 1]
      = map (\<lambda>c. map (hourOfDayLabel (timeView w) c (labelInterval (timeView w))) (tickHours (timeView w)))
               [0..numChunks w - 1]"
    by (rule map_cong [OF refl]) (rule inner)
  then show ?thesis
    unfolding generateTimeLabels_def chunkLabelLoop_eq [OF tv] by (simp only: append_Nil)
qed

text \<open>
  Claim C6, amended. With at least one chunk and a chunk size of 6, 12 or 24 hours,
  the label generator emits, chunk after chunk, one label per tick; the ticks of a
  chunk are the hours 0, 1, ..., \<open>timeView - 1\<close> when the chunk size is 24 or 6 and
  the hours 0, 2, ..., 10 when it is 12. The hour of a label is the absolute hour
  \<open>chunkIndex * timeView + hour\<close> reduced mod 24, and its text is that hour in two
  decimal digits followed by \<^verbatim>\<open>:00\<close>.
\<close>

theorem generateTimeLabels_ticks:
  assumes "1 \<le> numChunks w" and "timeView w \<in> {6, 12, 24}"
  shows "generateTimeLabels w =
     concat (map (\<lambda>c. map (\<lambda>h. \<lparr>tl_hour = (c * timeView w + h) mod 24,
                                   tl_chunkIndex = c,
                                   tl_width = (if timeView w = 12 then 2 else 1),
                                   tl_label = [digit_char (nat ((c * timeView w + h) mod 24) div 10),
                                               digit_char (nat ((c * timeView w + h) mod 24) mod 10)]
                                              @ '':00''\<rparr>)
                            (if timeView w = 12 then [0, 2, 4, 6, 8, 10] else [0..timeView w - 1]))
                 [0..numChunks w - 1])"
  using assms(2)
  by (simp add: generateTimeLabels_eq hourOfDayLabel_def [abs_def] tickHours_def labelInterval_def)

theorem generateTimeLabels_ticks_witness:
  "map (\<lambda>l. (tl_chunkIndex l, tl_hour l, tl_width l, tl_label l))
       (generateTimeLabels (GanttView binary64 utc_zone (single_day 12))) =
     [(0, 0, 2, ''00:00''), (0, 2, 2, ''02:00''), (0, 4, 2, ''04:00''), (0, 6, 2, ''06:00''),
      (0, 8, 2, ''08:00''), (0, 10, 2, ''10:00''), (1, 12, 2, ''12:00''), (1, 14, 2, ''14:00''),
      (1, 16, 2, ''16:00''), (1, 18, 2, ''18:00''), (1, 20, 2, ''20:00''), (1, 22, 2, ''22:00'')]"
  using generateTimeLabels_ticks [of "GanttView binary64 utc_zone (single_day 12)"]
  by (simp add: GanttView_single_day_doubles upto_rec1 digit_char_def)

text \<open>
  Claim C6, as the specification words it: the text of a label is the hour of day,
  zero-padded to two digits. The second label of a 12-hour view stands for hour 2;
  its text is not \<^verbatim>\<open>02\<close> but \<^verbatim>\<open>02:00\<close>.
\<close>

theorem time_label_bare_hour_counterexample:
  "tl_label (generateTimeLabels (GanttView binary64 utc_zone (single_day 12)) ! 1) = ''02:00''
   \<and> tl_label (generateTimeLabels (GanttView binary64 utc_zone (single_day 12)) ! 1) \<noteq> ''02''"
  by (simp add: generateTimeLabels_eq GanttView_single_day_doubles upto_rec1 hourOfDayLabel_def
      tickHours_def digit_char_def)

end
